theory Spec2Isabelle
  imports Main "HOL-Library.Word"
begin

section \<open>Data model of \<open>source_sink.go\<close>\<close>

type_synonym byte = "8 word"

text \<open>\<open>transport.NoisePublicKey\<close> is a 32-byte array; its zero value is all zeroes.\<close>

type_synonym NoisePublicKey = "256 word"

text \<open>
  \<open>netip.Addr\<close>: the zero value (neither family), an IPv4 address, or an IPv6 address
  with an optional zone. \<open>netip.AddrFrom4\<close> and \<open>netip.AddrFrom16\<close> build the last two,
  the latter with an empty zone.
\<close>

datatype Addr = AddrZero | Addr4 "32 word" | Addr6 "128 word" string

fun Is4 :: "Addr \<Rightarrow> bool" where
  "Is4 (Addr4 _) = True"
| "Is4 _ = False"

fun Is6 :: "Addr \<Rightarrow> bool" where
  "Is6 (Addr6 _ _) = True"
| "Is6 _ = False"

definition AddrFrom4 :: "32 word \<Rightarrow> Addr" where
  "AddrFrom4 w = Addr4 w"

definition AddrFrom16 :: "128 word \<Rightarrow> Addr" where
  "AddrFrom16 w = Addr6 w []"

text \<open>
  Errors returned by the adapter: \<open>net.ErrClosed\<close>, \<open>syscall.EAFNOSUPPORT\<close> and the
  messages built with \<open>fmt.Errorf\<close>.
\<close>

datatype error = ErrClosed | EAFNOSUPPORT | EOF | Errorf string

text \<open>The text \<open>%v\<close> prints for an error.\<close>

fun Error :: "error \<Rightarrow> string" where
  "Error ErrClosed = ''use of closed network connection''"
| "Error EAFNOSUPPORT = ''address family not supported by protocol''"
| "Error EOF = ''EOF''"
| "Error (Errorf msg) = msg"

text \<open>
  Run-time panics of Go that the code can raise: an index out of range, a slice
  expression out of range, closing a channel that is already closed, and the panic of a
  sender that is suspended on a channel when it is closed.
\<close>

datatype panic =
  IndexOutOfRange | SliceBoundsOutOfRange | CloseOfClosedChannel | SendOnClosedChannel

text \<open>
  The outcome of a call: it returns, it panics, or it is suspended on a channel
  receive that no sender serves.
\<close>

datatype 'a exec = Return 'a | Panic panic | Blocked

subsection \<open>Packets handed over by the stack\<close>

text \<open>
  A \<open>stack.PacketBuffer\<close> as \<open>Read\<close> observes it through the netstack interface: the
  \<open>NetworkProtocolNumber\<close> field, the answers of \<open>header.IPv4(h).IsValid(pkt.Size())\<close>
  and \<open>header.IPv6(h).IsValid(pkt.Size())\<close> on its network header \<open>h\<close>, the destination
  address each header type reads from it, and the bytes of \<open>pkt.ToView()\<close>.
\<close>

record PacketBuffer =
  NetworkProtocolNumber :: nat
  IPv4_IsValid :: bool
  IPv4_DestinationAddress :: "32 word"
  IPv6_IsValid :: bool
  IPv6_DestinationAddress :: "128 word"
  ToView :: "byte list"

definition IPv4ProtocolNumber :: nat where
  "IPv4ProtocolNumber = 0x0800"

definition IPv6ProtocolNumber :: nat where
  "IPv6ProtocolNumber = 0x86dd"

subsection \<open>The delivery channel\<close>

text \<open>
  \<open>incoming\<close> is an unbuffered channel. \<open>sendq\<close> holds the packets of the
  \<open>WriteNotify\<close> calls currently suspended in \<open>ss.incoming <- pkt\<close>, oldest first;
  \<open>chan_closed\<close> is set by \<open>close\<close>.
\<close>

record chan =
  sendq :: "PacketBuffer list"
  chan_closed :: bool

subsection \<open>Calls on the netstack objects\<close>

text \<open>
  The stack and the link endpoint are external objects. The model keeps the calls made
  on them, in program order, together with the \<open>close\<close> of the delivery channel.
\<close>

text \<open>
  \<open>tcpip.AddrFromSlice(addr.AsSlice()).WithPrefix()\<close>: the slice of a \<open>netip.Addr\<close> has
  0, 4 or 16 bytes, \<open>AddrFromSlice\<close> keeps a slice of 4 or 16 bytes and \<open>WithPrefix\<close>
  adds the full prefix length in bits.
\<close>

datatype tcpip_Address = Address_empty | Address_4 "32 word" | Address_16 "128 word"

record AddressWithPrefix =
  Address :: tcpip_Address
  PrefixLen :: nat

fun AddrFromSlice_AsSlice :: "Addr \<Rightarrow> tcpip_Address" where
  "AddrFromSlice_AsSlice AddrZero = Address_empty"
| "AddrFromSlice_AsSlice (Addr4 w) = Address_4 w"
| "AddrFromSlice_AsSlice (Addr6 w zone) = Address_16 w"

fun WithPrefix :: "tcpip_Address \<Rightarrow> AddressWithPrefix" where
  "WithPrefix Address_empty = \<lparr>Address = Address_empty, PrefixLen = 0\<rparr>"
| "WithPrefix (Address_4 w) = \<lparr>Address = Address_4 w, PrefixLen = 32\<rparr>"
| "WithPrefix (Address_16 w) = \<lparr>Address = Address_16 w, PrefixLen = 128\<rparr>"

record ProtocolAddress =
  Protocol :: nat
  AddressWithPrefix :: AddressWithPrefix

datatype Subnet = IPv4EmptySubnet | IPv6EmptySubnet

record Route =
  Destination :: Subnet
  NIC :: nat

datatype call =
    stack_New
  | channel_New nat nat
  | SetTransportProtocolOption_TCPSACKEnabled bool
  | AddNotify
  | CreateNIC nat
  | AddProtocolAddress nat ProtocolAddress
  | AddRoute Route
  | RemoveNIC nat
  | stack_Close
  | ep_Close
  | InjectInbound nat "byte list"
  | close_incoming

record sourceSink =
  calls :: "call list"
  incoming :: chan
  peerNames :: "string \<rightharpoonup> NoisePublicKey"
  peerAddresses :: "NoisePublicKey \<rightharpoonup> Addr list"
  fromPeerAddress :: "Addr \<rightharpoonup> NoisePublicKey"
  publicKey :: NoisePublicKey

section \<open>\<open>Write\<close>: the inbound path\<close>

definition ep_InjectInbound :: "sourceSink \<Rightarrow> nat \<Rightarrow> byte list \<Rightarrow> sourceSink" where
  "ep_InjectInbound ss proto payload = ss\<lparr>calls := calls ss @ [InjectInbound proto payload]\<rparr>"

text \<open>
  The loop of \<open>Write\<close> over the remaining buffers; \<open>n\<close> is \<open>len(bufs)\<close> of the whole
  batch. With a negative \<open>offset\<close> the test \<open>len(buf) <= offset\<close> fails and
  \<open>buf[offset:]\<close> panics.
\<close>

fun Write_loop :: "sourceSink \<Rightarrow> nat \<Rightarrow> byte list list \<Rightarrow> int \<Rightarrow> (sourceSink \<times> nat \<times> error option) exec" where
  "Write_loop ss n [] offset = Return (ss, n, None)"
| "Write_loop ss n (buf # bufs) offset =
     (if int (length buf) \<le> offset then Write_loop ss n bufs offset
      else if offset < 0 then Panic SliceBoundsOutOfRange
      else
        let payload = drop (nat offset) buf;
            v = drop_bit 4 (buf ! nat offset)
        in if v = 4 then Write_loop (ep_InjectInbound ss IPv4ProtocolNumber payload) n bufs offset
           else if v = 6 then Write_loop (ep_InjectInbound ss IPv6ProtocolNumber payload) n bufs offset
           else Return (ss, 0, Some EAFNOSUPPORT))"

definition Write :: "sourceSink \<Rightarrow> byte list list \<Rightarrow> NoisePublicKey list \<Rightarrow> int \<Rightarrow> (sourceSink \<times> nat \<times> error option) exec" where
  "Write ss bufs peers offset = Write_loop ss (length bufs) bufs offset"

section \<open>Construction\<close>

definition queueSize :: nat where
  "queueSize = 1024"

text \<open>
  What the code takes from outside this file: \<open>transport.DefaultMTU\<close>, and the
  \<open>tcpip.Error\<close> a call on the stack answers with (as its text; \<open>None\<close> is success),
  which may depend on the calls made before.
\<close>

record env =
  DefaultMTU :: nat
  tcpip_Error :: "call list \<Rightarrow> call \<Rightarrow> string option"

text \<open>
  \<open>noisyNet\<close> as \<open>newSourceSink\<close> fills it. Its \<open>stack\<close>, \<open>peerNames\<close> and
  \<open>peerAddresses\<close> fields are the adapter's own objects (Go maps and pointers are
  references), so they are read from the \<open>sourceSink\<close>.
\<close>

record noisyNet =
  localName :: string
  localAddrs :: "Addr list"

text \<open>The \<open>protoAddr\<close> the loop over \<open>localAddrs\<close> builds for an address.\<close>

definition protoAddr :: "Addr \<Rightarrow> ProtocolAddress" where
  "protoAddr addr =
     (let protoNumber = (if Is4 addr then IPv4ProtocolNumber
                         else if Is6 addr then IPv6ProtocolNumber else 0)
      in \<lparr>Protocol = protoNumber,
          AddressWithPrefix = WithPrefix (AddrFromSlice_AsSlice addr)\<rparr>)"

text \<open>The loop over \<open>localAddrs\<close>; \<open>cs\<close> is the calls made so far.\<close>

fun addLocalAddrs :: "env \<Rightarrow> call list \<Rightarrow> bool \<Rightarrow> bool \<Rightarrow> Addr list \<Rightarrow> error + (call list \<times> bool \<times> bool)" where
  "addLocalAddrs e cs hasV4 hasV6 [] = Inr (cs, hasV4, hasV6)"
| "addLocalAddrs e cs hasV4 hasV6 (addr # addrs) =
     (case tcpip_Error e cs (AddProtocolAddress 1 (protoAddr addr)) of
        Some err \<Rightarrow> Inl (Errorf (''could not add protocol address: '' @ err))
      | None \<Rightarrow>
          addLocalAddrs e (cs @ [AddProtocolAddress 1 (protoAddr addr)])
            (if Is4 addr then True else hasV4)
            (if Is4 addr then hasV6 else if Is6 addr then True else hasV6)
            addrs)"

definition newSourceSink :: "env \<Rightarrow> string \<Rightarrow> NoisePublicKey \<Rightarrow> Addr list \<Rightarrow> error + (sourceSink \<times> noisyNet)" where
  "newSourceSink e name key addrs =
     (let cs0 = [stack_New, channel_New queueSize (DefaultMTU e)] in
      case tcpip_Error e cs0 (SetTransportProtocolOption_TCPSACKEnabled True) of
        Some err \<Rightarrow> Inl (Errorf (''could not enable TCP SACK: '' @ err))
      | None \<Rightarrow>
          (let cs1 = cs0 @ [SetTransportProtocolOption_TCPSACKEnabled True, AddNotify] in
           (case tcpip_Error e cs1 (CreateNIC 1) of
              Some err \<Rightarrow> Inl (Errorf (''could not create NIC: '' @ err))
            | None \<Rightarrow>
                (case addLocalAddrs e (cs1 @ [CreateNIC 1]) False False addrs of
                   Inl err \<Rightarrow> Inl err
                 | Inr (cs2, hasV4, hasV6) \<Rightarrow>
                     (let cs3 = cs2 @ (if hasV4
                                       then [AddRoute \<lparr>Destination = IPv4EmptySubnet, NIC = 1\<rparr>]
                                       else []);
                          cs4 = cs3 @ (if hasV6
                                       then [AddRoute \<lparr>Destination = IPv6EmptySubnet, NIC = 1\<rparr>]
                                       else [])
                      in Inr (\<lparr>calls = cs4,
                                incoming = \<lparr>sendq = [], chan_closed = False\<rparr>,
                                peerNames = Map.empty,
                                peerAddresses = Map.empty,
                                fromPeerAddress = Map.empty,
                                publicKey = key\<rparr>,
                              \<lparr>localName = name, localAddrs = addrs\<rparr>))))))"

section \<open>The peer registry\<close>

text \<open>
  The loop of \<open>AddPeer\<close> over \<open>addrs\<close>. Indexing \<open>peerAddresses\<close> at a key it does
  not hold gives the nil slice, to which \<open>append\<close> adds the address.
\<close>

fun AddPeer_addrs :: "sourceSink \<Rightarrow> NoisePublicKey \<Rightarrow> Addr list \<Rightarrow> sourceSink" where
  "AddPeer_addrs ss key [] = ss"
| "AddPeer_addrs ss key (addr # addrs) =
     AddPeer_addrs
       (ss\<lparr>peerAddresses := (peerAddresses ss)
              (key \<mapsto> (case peerAddresses ss key of None \<Rightarrow> [] | Some as \<Rightarrow> as) @ [addr]),
           fromPeerAddress := (fromPeerAddress ss)(addr \<mapsto> key)\<rparr>)
       key addrs"

definition AddPeer :: "sourceSink \<Rightarrow> string \<Rightarrow> NoisePublicKey \<Rightarrow> Addr list \<Rightarrow> sourceSink" where
  "AddPeer ss name key addrs =
     AddPeer_addrs (if name \<noteq> [] then ss\<lparr>peerNames := (peerNames ss)(name \<mapsto> key)\<rparr> else ss)
       key addrs"

section \<open>\<open>Close\<close>\<close>

text \<open>
  The error \<open>RemoveNIC\<close> answers with is not read; \<open>stack.Close\<close> and \<open>ep.Close\<close>
  return nothing. \<open>close(ss.incoming)\<close> panics on a closed channel, and it makes every
  sender suspended on the channel panic.
\<close>

definition Close :: "env \<Rightarrow> sourceSink \<Rightarrow> (sourceSink \<times> error option) exec" where
  "Close e ss =
     (let cs = calls ss @ [RemoveNIC 1, stack_Close, ep_Close] in
      if chan_closed (incoming ss) then Panic CloseOfClosedChannel
      else if sendq (incoming ss) \<noteq> [] then Panic SendOnClosedChannel
      else Return (ss\<lparr>calls := cs @ [close_incoming],
                       incoming := \<lparr>sendq = [], chan_closed = True\<rparr>\<rparr>, None))"

section \<open>\<open>Read\<close>: the outbound path\<close>

text \<open>
  \<open>view.Read(p)\<close> of netstack's \<open>buffer.View\<close>: nothing is read into an empty \<open>p\<close>;
  an empty view answers \<open>io.EOF\<close>; otherwise \<open>copy\<close> fills the front of \<open>p\<close> with as
  many bytes of the view as fit. The result is the new \<open>p\<close>, \<open>n\<close> and the error.
\<close>

definition View_Read :: "byte list \<Rightarrow> byte list \<Rightarrow> byte list \<times> nat \<times> error option" where
  "View_Read v p =
     (if p = [] then (p, 0, None)
      else if v = [] then (p, 0, Some EOF)
      else let n = min (length p) (length v) in (take n v @ drop n p, n, None))"

text \<open>The \<open>switch\<close> of \<open>packetFn\<close>: the destination address of the packet, or the error.\<close>

definition peerAddr :: "PacketBuffer \<Rightarrow> error + Addr" where
  "peerAddr pkt =
     (if NetworkProtocolNumber pkt = IPv4ProtocolNumber then
        (if \<not> IPv4_IsValid pkt then Inl (Errorf ''invalid IPv4 header'')
         else Inr (AddrFrom4 (IPv4_DestinationAddress pkt)))
      else if NetworkProtocolNumber pkt = IPv6ProtocolNumber then
        (if \<not> IPv6_IsValid pkt then Inl (Errorf ''invalid IPv6 header'')
         else Inr (AddrFrom16 (IPv6_DestinationAddress pkt)))
      else Inl (Errorf ''unknown network protocol''))"

text \<open>
  The caller's three slices. \<open>packetFn\<close> writes \<open>destinations[idx]\<close> before it tests
  \<open>ok\<close> (the zero key when the address is not registered), then \<open>bufs[idx][offset:]\<close>,
  then \<open>sizes[idx]\<close>; each index is checked where Go checks it.
\<close>

type_synonym batch = "byte list list \<times> int list \<times> NoisePublicKey list"

fun packetFn :: "(Addr \<rightharpoonup> NoisePublicKey) \<Rightarrow> int \<Rightarrow> batch \<Rightarrow> nat \<Rightarrow> PacketBuffer \<Rightarrow> (batch \<times> error option) exec" where
  "packetFn index offset (bufs, sizes, destinations) idx pkt =
     (case peerAddr pkt of
        Inl err \<Rightarrow> Return ((bufs, sizes, destinations), Some err)
      | Inr a \<Rightarrow>
          if length destinations \<le> idx then Panic IndexOutOfRange
          else
            let destinations' =
                  destinations[idx := (case index a of None \<Rightarrow> 0 | Some key \<Rightarrow> key)]
            in if index a = None
               then Return ((bufs, sizes, destinations'),
                            Some (Errorf ''unknown destination address''))
               else if length bufs \<le> idx then Panic IndexOutOfRange
               else if offset < 0 \<or> int (length (bufs ! idx)) < offset
               then Panic SliceBoundsOutOfRange
               else
                 (case View_Read (ToView pkt) (drop (nat offset) (bufs ! idx)) of
                    (p, n, Some err) \<Rightarrow>
                      Return ((bufs[idx := take (nat offset) (bufs ! idx) @ p], sizes, destinations'),
                              Some (Errorf (''could not read packet: '' @ Error err)))
                  | (p, n, None) \<Rightarrow>
                      if length sizes \<le> idx then Panic IndexOutOfRange
                      else Return ((bufs[idx := take (nat offset) (bufs ! idx) @ p],
                                    sizes[idx := int n], destinations'), None)))"

text \<open>
  The loop \<open>for count < len(bufs)\<close> with its non-blocking \<open>select\<close>: \<open>q\<close> is the
  senders still suspended on the channel; the result carries those left.
\<close>

fun Read_loop :: "(Addr \<rightharpoonup> NoisePublicKey) \<Rightarrow> bool \<Rightarrow> int \<Rightarrow> batch \<Rightarrow> nat \<Rightarrow> PacketBuffer list \<Rightarrow> (PacketBuffer list \<times> batch \<times> nat \<times> error option) exec" where
  "Read_loop index cl offset bt count [] =
     (if count < length (fst bt)
      then (if cl then Return ([], bt, count, Some ErrClosed) else Return ([], bt, count, None))
      else Return ([], bt, count, None))"
| "Read_loop index cl offset bt count (pkt # q) =
     (if count < length (fst bt)
      then (if cl then Return (pkt # q, bt, count, Some ErrClosed)
            else (case packetFn index offset bt count pkt of
                    Return (bt', Some err) \<Rightarrow> Return (q, bt', count, Some err)
                  | Return (bt', None) \<Rightarrow> Read_loop index cl offset bt' (count + 1) q
                  | Panic p \<Rightarrow> Panic p
                  | Blocked \<Rightarrow> Blocked))
      else Return (pkt # q, bt, count, None))"

text \<open>
  \<open>Read\<close>: the blocking receive, \<open>packetFn\<close> at index 0, then the loop. A receive on
  the closed channel answers \<open>ok = false\<close>; on the open channel with no sender it stays
  suspended.
\<close>

definition Read :: "sourceSink \<Rightarrow> byte list list \<Rightarrow> int list \<Rightarrow> NoisePublicKey list \<Rightarrow> int \<Rightarrow> (sourceSink \<times> batch \<times> nat \<times> error option) exec" where
  "Read ss bufs sizes destinations offset =
     (if chan_closed (incoming ss) then Return (ss, (bufs, sizes, destinations), 0, Some ErrClosed)
      else case sendq (incoming ss) of
        [] \<Rightarrow> Blocked
      | pkt # q \<Rightarrow>
          (case packetFn (fromPeerAddress ss) offset (bufs, sizes, destinations) 0 pkt of
             Return (bt, Some err) \<Rightarrow>
               Return (ss\<lparr>incoming := (incoming ss)\<lparr>sendq := q\<rparr>\<rparr>, bt, 0, Some err)
           | Return (bt, None) \<Rightarrow>
               (case Read_loop (fromPeerAddress ss) (chan_closed (incoming ss)) offset bt 1 q of
                  Return (q', bt', count, err) \<Rightarrow>
                    Return (ss\<lparr>incoming := (incoming ss)\<lparr>sendq := q'\<rparr>\<rparr>, bt', count, err)
                | Panic p \<Rightarrow> Panic p
                | Blocked \<Rightarrow> Blocked)
           | Panic p \<Rightarrow> Panic p
           | Blocked \<Rightarrow> Blocked))"

text \<open>
  The statements of \<open>Read\<close> that follow its first receive, once that receive has
  delivered \<open>pkt\<close>: \<open>ss\<close> is the adapter with \<open>pkt\<close> off the channel.
\<close>

definition Read_body :: "sourceSink \<Rightarrow> PacketBuffer \<Rightarrow> byte list list \<Rightarrow> int list \<Rightarrow> NoisePublicKey list \<Rightarrow> int \<Rightarrow> (sourceSink \<times> batch \<times> nat \<times> error option) exec" where
  "Read_body ss pkt bufs sizes destinations offset =
     (case packetFn (fromPeerAddress ss) offset (bufs, sizes, destinations) 0 pkt of
        Return (bt, Some err) \<Rightarrow> Return (ss, bt, 0, Some err)
      | Return (bt, None) \<Rightarrow>
          (case Read_loop (fromPeerAddress ss) (chan_closed (incoming ss)) offset bt 1
                  (sendq (incoming ss)) of
             Return (q', bt', count, err) \<Rightarrow>
               Return (ss\<lparr>incoming := (incoming ss)\<lparr>sendq := q'\<rparr>\<rparr>, bt', count, err)
           | Panic p \<Rightarrow> Panic p
           | Blocked \<Rightarrow> Blocked)
      | Panic p \<Rightarrow> Panic p
      | Blocked \<Rightarrow> Blocked)"

section \<open>Vocabulary of the statements\<close>

text \<open>
  A payload \<open>Write\<close> rejects: it is not empty after \<open>offset\<close> and the high nibble of
  its first byte is neither 4 nor 6.
\<close>

definition rejected :: "int \<Rightarrow> byte list \<Rightarrow> bool" where
  "rejected offset buf \<longleftrightarrow>
     offset < int (length buf) \<and>
     drop_bit 4 (buf ! nat offset) \<noteq> 4 \<and> drop_bit 4 (buf ! nat offset) \<noteq> 6"

text \<open>
  What the claims say is injected for one payload: nothing when it is empty after
  \<open>offset\<close>, an inbound IPv4 packet for the nibble 4, an inbound IPv6 packet for the
  nibble 6, nothing for any other nibble.
\<close>

definition injection_of :: "int \<Rightarrow> byte list \<Rightarrow> call list" where
  "injection_of offset buf =
     (if int (length buf) \<le> offset then []
      else if drop_bit 4 (buf ! nat offset) = 4
      then [InjectInbound IPv4ProtocolNumber (drop (nat offset) buf)]
      else if drop_bit 4 (buf ! nat offset) = 6
      then [InjectInbound IPv6ProtocolNumber (drop (nat offset) buf)]
      else [])"

definition injections :: "int \<Rightarrow> byte list list \<Rightarrow> call list" where
  "injections offset bufs = concat (map (injection_of offset) bufs)"

text \<open>
  A sequence of \<open>AddPeer\<close> calls, each given by its name, its public key and its
  addresses, applied in order.
\<close>

type_synonym peer_call = "string \<times> NoisePublicKey \<times> Addr list"

fun AddPeer_calls :: "sourceSink \<Rightarrow> peer_call list \<Rightarrow> sourceSink" where
  "AddPeer_calls ss [] = ss"
| "AddPeer_calls ss ((name, key, addrs) # cs) = AddPeer_calls (AddPeer ss name key addrs) cs"

text \<open>
  The call the claims expect for a supplied local address: on NIC 1, the address itself
  with the protocol number of its IP version (0x0800 for IPv4, 0x86dd for IPv6) and its
  full prefix length. The zero \<open>netip.Addr\<close> has no version: it goes to the stack with
  the protocol number 0 and no address bytes.
\<close>

fun address_call :: "Addr \<Rightarrow> call" where
  "address_call (Addr4 w) =
     AddProtocolAddress 1
       \<lparr>Protocol = 0x0800, AddressWithPrefix = \<lparr>Address = Address_4 w, PrefixLen = 32\<rparr>\<rparr>"
| "address_call (Addr6 w zone) =
     AddProtocolAddress 1
       \<lparr>Protocol = 0x86dd, AddressWithPrefix = \<lparr>Address = Address_16 w, PrefixLen = 128\<rparr>\<rparr>"
| "address_call AddrZero =
     AddProtocolAddress 1
       \<lparr>Protocol = 0, AddressWithPrefix = \<lparr>Address = Address_empty, PrefixLen = 0\<rparr>\<rparr>"

text \<open>
  The calls \<open>newSourceSink\<close> has made when it adds the local address number \<open>k\<close>
  (all of them when \<open>k\<close> is the number of addresses), provided none has failed.
\<close>

definition calls_before_address :: "env \<Rightarrow> Addr list \<Rightarrow> nat \<Rightarrow> call list" where
  "calls_before_address e addrs k =
     [stack_New, channel_New queueSize (DefaultMTU e),
      SetTransportProtocolOption_TCPSACKEnabled True, AddNotify, CreateNIC 1] @
     map address_call (take k addrs)"

text \<open>
  A malformed packet: its header fails the validation of its protocol, or its protocol
  is neither IPv4 nor IPv6; and the format error \<open>Read\<close> reports for it.
\<close>

definition malformed :: "PacketBuffer \<Rightarrow> bool" where
  "malformed pkt \<longleftrightarrow>
     (NetworkProtocolNumber pkt = IPv4ProtocolNumber \<and> \<not> IPv4_IsValid pkt) \<or>
     (NetworkProtocolNumber pkt = IPv6ProtocolNumber \<and> \<not> IPv6_IsValid pkt) \<or>
     (NetworkProtocolNumber pkt \<noteq> IPv4ProtocolNumber \<and>
      NetworkProtocolNumber pkt \<noteq> IPv6ProtocolNumber)"

definition format_error :: "PacketBuffer \<Rightarrow> error" where
  "format_error pkt =
     (if NetworkProtocolNumber pkt = IPv4ProtocolNumber then Errorf ''invalid IPv4 header''
      else if NetworkProtocolNumber pkt = IPv6ProtocolNumber then Errorf ''invalid IPv6 header''
      else Errorf ''unknown network protocol'')"

text \<open>The destination address of a packet that is not malformed.\<close>

definition destination :: "PacketBuffer \<Rightarrow> Addr" where
  "destination pkt =
     (if NetworkProtocolNumber pkt = IPv4ProtocolNumber
      then Addr4 (IPv4_DestinationAddress pkt)
      else Addr6 (IPv6_DestinationAddress pkt) [])"

text \<open>
  A buffer filled with a packet: the bytes before \<open>offset\<close> stay, the packet's bytes
  follow as far as the buffer has room, the rest of the buffer stays; and the number of
  bytes copied.
\<close>

definition filled_size :: "int \<Rightarrow> byte list \<Rightarrow> PacketBuffer \<Rightarrow> nat" where
  "filled_size offset buf pkt = min (length buf - nat offset) (length (ToView pkt))"

definition filled :: "int \<Rightarrow> byte list \<Rightarrow> PacketBuffer \<Rightarrow> byte list" where
  "filled offset buf pkt =
     take (nat offset) buf @ take (filled_size offset buf pkt) (ToView pkt) @
     drop (nat offset + filled_size offset buf pkt) buf"

section \<open>Example inputs\<close>

text \<open>A stack on which no call fails, with the MTU of WireGuard.\<close>

definition env_ok :: env where
  "env_ok = \<lparr>DefaultMTU = 1420, tcpip_Error = (\<lambda>cs c. None)\<rparr>"

text \<open>A stack on which \<open>RemoveNIC\<close> fails and every other call succeeds.\<close>

definition env_RemoveNIC_fails :: env where
  "env_RemoveNIC_fails =
     \<lparr>DefaultMTU = 1420,
      tcpip_Error = (\<lambda>cs c. if c = RemoveNIC 1 then Some ''unknown nic id'' else None)\<rparr>"

text \<open>A stack that refuses a call it has already served (a duplicate address).\<close>

definition env_duplicate_fails :: env where
  "env_duplicate_fails =
     \<lparr>DefaultMTU = 1420,
      tcpip_Error = (\<lambda>cs c. if c \<in> set cs then Some ''duplicate address'' else None)\<rparr>"

text \<open>The adapter \<open>newSourceSink\<close> builds for the local address 10.0.0.1.\<close>

definition ss_example :: sourceSink where
  "ss_example =
     \<lparr>calls = [stack_New, channel_New 1024 1420,
               SetTransportProtocolOption_TCPSACKEnabled True, AddNotify, CreateNIC 1,
               AddProtocolAddress 1
                 \<lparr>Protocol = 0x0800,
                  AddressWithPrefix = \<lparr>Address = Address_4 0x0A000001, PrefixLen = 32\<rparr>\<rparr>,
               AddRoute \<lparr>Destination = IPv4EmptySubnet, NIC = 1\<rparr>],
      incoming = \<lparr>sendq = [], chan_closed = False\<rparr>,
      peerNames = Map.empty,
      peerAddresses = Map.empty,
      fromPeerAddress = Map.empty,
      publicKey = 7\<rparr>"

text \<open>
  Registrations in which no address is given to two keys: peer 11 (named \<open>b\<close>) with
  10.0.0.2 and ::1, a nameless peer 12 with 10.0.0.3, and 10.0.0.2 once more for peer 11.
\<close>

definition peers_example :: "peer_call list" where
  "peers_example =
     [(''b'', 11, [Addr4 0x0A000002, Addr6 1 []]),
      ([], 12, [Addr4 0x0A000003]),
      (''b'', 11, [Addr4 0x0A000002])]"

text \<open>Registrations in which 10.0.0.2 goes first to peer 11 and then to peer 12.\<close>

definition peers_overwrite_example :: "peer_call list" where
  "peers_overwrite_example =
     [(''b'', 11, [Addr4 0x0A000002, Addr6 1 []]),
      (''c'', 12, [Addr4 0x0A000002])]"

text \<open>The example adapter after \<open>Close\<close>.\<close>

definition ss_closed_example :: sourceSink where
  "ss_closed_example =
     ss_example\<lparr>calls := calls ss_example @ [RemoveNIC 1, stack_Close, ep_Close, close_incoming],
                incoming := \<lparr>sendq = [], chan_closed = True\<rparr>\<rparr>"

text \<open>
  Packets of the stack: an IPv4 packet (a bare 20-byte header) to 10.0.0.2, one to
  10.0.0.9, and an ARP packet, which is neither IPv4 nor IPv6.
\<close>

definition pkt_to_b :: PacketBuffer where
  "pkt_to_b =
     \<lparr>NetworkProtocolNumber = 0x0800,
      IPv4_IsValid = True, IPv4_DestinationAddress = 0x0A000002,
      IPv6_IsValid = False, IPv6_DestinationAddress = 0,
      ToView = [0x45, 0, 0, 0x14, 0, 0, 0, 0, 0x40, 0x06, 0, 0,
                0x0A, 0, 0, 1, 0x0A, 0, 0, 2]\<rparr>"

definition pkt_to_stranger :: PacketBuffer where
  "pkt_to_stranger =
     \<lparr>NetworkProtocolNumber = 0x0800,
      IPv4_IsValid = True, IPv4_DestinationAddress = 0x0A000009,
      IPv6_IsValid = False, IPv6_DestinationAddress = 0,
      ToView = [0x45, 0, 0, 0x14, 0, 0, 0, 0, 0x40, 0x06, 0, 0,
                0x0A, 0, 0, 1, 0x0A, 0, 0, 9]\<rparr>"

definition pkt_arp :: PacketBuffer where
  "pkt_arp =
     \<lparr>NetworkProtocolNumber = 0x0806,
      IPv4_IsValid = False, IPv4_DestinationAddress = 0,
      IPv6_IsValid = False, IPv6_DestinationAddress = 0,
      ToView = [0, 1, 8, 0, 6, 4, 0, 1]\<rparr>"

text \<open>A buffer of 24 bytes: room for a header of 4 bytes and a packet of 20.\<close>

definition buf_example :: "byte list" where
  "buf_example = [0, 0, 0, 0, 0, 0, 0, 0, 0, 0, 0, 0, 0, 0, 0, 0, 0, 0, 0, 0, 0, 0, 0, 0]"

text \<open>
  The example adapter with the peers of \<open>peers_example\<close> registered and the given
  packets waiting on the delivery channel.
\<close>

definition ss_queued :: "PacketBuffer list \<Rightarrow> sourceSink" where
  "ss_queued q =
     (AddPeer_calls ss_example peers_example)\<lparr>incoming := \<lparr>sendq = q, chan_closed = False\<rparr>\<rparr>"

section \<open>Construction of the example\<close>

lemma newSourceSink_example:
  "newSourceSink env_ok ''a'' 7 [Addr4 0x0A000001] =
     Inr (ss_example, \<lparr>localName = ''a'', localAddrs = [Addr4 0x0A000001]\<rparr>)"
  by (simp add: newSourceSink_def env_ok_def ss_example_def queueSize_def
      protoAddr_def IPv4ProtocolNumber_def)

section \<open>\<open>Write\<close>\<close>

lemma Write_loop_accepted:
  assumes "0 \<le> offset" and "\<forall>b\<in>set pre. \<not> rejected offset b"
  shows "Write_loop ss n (pre @ xs) offset =
         Write_loop (ss\<lparr>calls := calls ss @ injections offset pre\<rparr>) n xs offset"
  using assms
proof (induction pre arbitrary: ss)
  case Nil
  then show ?case by (simp add: injections_def)
next
  case (Cons b pre)
  then show ?case
    by (auto simp: injections_def injection_of_def rejected_def ep_InjectInbound_def Let_def)
qed

lemma Write_loop_rejected:
  assumes "0 \<le> offset" and "rejected offset buf"
  shows "Write_loop ss n (buf # rest) offset = Return (ss, 0, Some EAFNOSUPPORT)"
  using assms by (simp add: rejected_def Let_def)

lemma Write_loop_takeWhile:
  assumes "0 \<le> offset"
  shows "\<exists>m err. Write_loop ss n bufs offset =
     Return (ss\<lparr>calls := calls ss @
                 injections offset (takeWhile (\<lambda>b. \<not> rejected offset b) bufs)\<rparr>, m, err)"
  using assms
proof (induction bufs arbitrary: ss)
  case Nil
  then show ?case by (simp add: injections_def)
next
  case (Cons b bufs)
  show ?case
  proof (cases "rejected offset b")
    case True
    then show ?thesis
      using Write_loop_rejected [OF Cons.prems True, of ss n bufs]
      by (simp add: injections_def injection_of_def del: Write_loop.simps)
  next
    case False
    let ?ss = "ss\<lparr>calls := calls ss @ injections offset [b]\<rparr>"
    have "Write_loop ss n ([b] @ bufs) offset = Write_loop ?ss n bufs offset"
      using False Cons.prems by (intro Write_loop_accepted) auto
    moreover obtain m err where "Write_loop ?ss n bufs offset =
        Return (?ss\<lparr>calls := calls ?ss @
                   injections offset (takeWhile (\<lambda>b. \<not> rejected offset b) bufs)\<rparr>, m, err)"
      using Cons.IH [OF Cons.prems] by blast
    ultimately show ?thesis
      using False by (simp add: injections_def injection_of_def del: Write_loop.simps)
  qed
qed

text \<open>
  C1, as the code has it. When the batch holds a payload that is not empty after
  \<open>offset\<close> and whose leading nibble is neither 4 nor 6, \<open>Write\<close> returns
  \<open>EAFNOSUPPORT\<close> at the first such payload and processes nothing after it; the
  payloads before it have been injected, and the count returned is 0, whatever their
  number.
\<close>

theorem Write_rejection_returns_zero:
  assumes "0 \<le> offset"
    and "\<forall>b\<in>set pre. \<not> rejected offset b"
    and "rejected offset buf"
  shows "Write ss (pre @ buf # rest) peers offset =
         Return (ss\<lparr>calls := calls ss @ injections offset pre\<rparr>, 0, Some EAFNOSUPPORT)"
  unfolding Write_def
  by (simp only: Write_loop_accepted [OF assms(1,2)] Write_loop_rejected [OF assms(1,3)])

theorem Write_rejection_returns_zero_witness:
  "Write ss_example ([[0x45, 0x01], [], [0x60]] @ [0x00] # [[0x45]]) [] 0 =
   Return (ss_example\<lparr>calls := calls ss_example @
             [InjectInbound IPv4ProtocolNumber [0x45, 0x01],
              InjectInbound IPv6ProtocolNumber [0x60]]\<rparr>,
           0, Some EAFNOSUPPORT)"
  using Write_rejection_returns_zero
    [of 0 "[[0x45, 0x01], [], [0x60]]" "[0x00]" ss_example "[[0x45]]" "[]"]
  by (simp add: rejected_def injections_def injection_of_def)

text \<open>
  C1 as stated fails: for the batch of the two one-byte payloads \<open>0x45\<close> and \<open>0x00\<close>
  one payload is injected before the rejection, and the count returned is 0, not 1.
\<close>

theorem Write_count_counterexample:
  "Write ss_example [[0x45], [0x00]] [] 0 =
   Return (ss_example\<lparr>calls := calls ss_example @
             [InjectInbound IPv4ProtocolNumber [0x45]]\<rparr>,
           0, Some EAFNOSUPPORT)"
  by (simp add: Write_def ep_InjectInbound_def Let_def)

text \<open>
  C7, as the code has it. For a call of \<open>Write\<close> with a non-negative \<open>offset\<close>, the
  calls made on the endpoint are exactly the injections of the payloads that come
  before the first rejected one, in order: none for a payload that is empty after
  \<open>offset\<close>, inbound IPv4 for the high nibble 4, inbound IPv6 for the high nibble 6.
  Nothing else is injected; the rejected payload and the payloads after it are not.
\<close>

theorem Write_injects_by_leading_nibble:
  assumes "0 \<le> offset"
  shows "\<exists>n err. Write ss bufs peers offset =
     Return (ss\<lparr>calls := calls ss @
                 injections offset (takeWhile (\<lambda>b. \<not> rejected offset b) bufs)\<rparr>, n, err)"
  unfolding Write_def using Write_loop_takeWhile [OF assms] by blast

theorem Write_injects_by_leading_nibble_witness:
  "\<exists>n err.
     Write ss_example
       [[0x00, 0x45, 0x01], [0x00], [0x00, 0x60], [0x00, 0x50], [0x00, 0x45]] [] 1 =
     Return (ss_example\<lparr>calls := calls ss_example @
               [InjectInbound IPv4ProtocolNumber [0x45, 0x01],
                InjectInbound IPv6ProtocolNumber [0x60]]\<rparr>, n, err)"
  using Write_injects_by_leading_nibble
    [of 1 ss_example "[[0x00, 0x45, 0x01], [0x00], [0x00, 0x60], [0x00, 0x50], [0x00, 0x45]]" "[]"]
  by (simp add: rejected_def injections_def injection_of_def)

text \<open>
  C7 as stated fails for a payload that follows a rejected one: in the batch of the
  one-byte payloads \<open>0x00\<close> and \<open>0x45\<close> the second has the high nibble 4, and \<open>Write\<close>
  returns at the first without any call on the endpoint.
\<close>

theorem Write_later_payload_counterexample:
  "Write ss_example [[0x00], [0x45]] [] 0 = Return (ss_example, 0, Some EAFNOSUPPORT) \<and>
   drop_bit 4 (0x45 :: byte) = 4"
  by (simp add: Write_def Let_def)

section \<open>\<open>AddPeer\<close> and the address index\<close>


lemma fromPeerAddress_AddPeer_addrs:
  "fromPeerAddress (AddPeer_addrs ss key addrs) a =
     (if a \<in> set addrs then Some key else fromPeerAddress ss a)"
  by (induction addrs arbitrary: ss) auto

lemma peerAddresses_AddPeer_addrs:
  "peerAddresses (AddPeer_addrs ss key addrs) k =
     (if k = key \<and> addrs \<noteq> []
      then Some ((case peerAddresses ss key of None \<Rightarrow> [] | Some as \<Rightarrow> as) @ addrs)
      else peerAddresses ss k)"
  by (induction addrs arbitrary: ss) auto

lemma fromPeerAddress_AddPeer:
  "fromPeerAddress (AddPeer ss name key addrs) a =
     (if a \<in> set addrs then Some key else fromPeerAddress ss a)"
  by (simp add: AddPeer_def fromPeerAddress_AddPeer_addrs)

lemma peerAddresses_AddPeer:
  "peerAddresses (AddPeer ss name key addrs) k =
     (if k = key \<and> addrs \<noteq> []
      then Some ((case peerAddresses ss key of None \<Rightarrow> [] | Some as \<Rightarrow> as) @ addrs)
      else peerAddresses ss k)"
  by (simp add: AddPeer_def peerAddresses_AddPeer_addrs)

lemma incoming_AddPeer_addrs: "incoming (AddPeer_addrs ss key addrs) = incoming ss"
  by (induction addrs arbitrary: ss) auto

text \<open>An address that no call of the sequence registers keeps its entry.\<close>

lemma fromPeerAddress_AddPeer_calls_other:
  "\<forall>c\<in>set cs. a \<notin> set (snd (snd c)) \<Longrightarrow>
   fromPeerAddress (AddPeer_calls ss cs) a = fromPeerAddress ss a"
  by (induction ss cs rule: AddPeer_calls.induct) (auto simp: fromPeerAddress_AddPeer)

text \<open>The entry of an address is the key of the last call that registers it.\<close>

lemma fromPeerAddress_AddPeer_calls_last:
  assumes "a \<in> set addrs" and "\<forall>c\<in>set after. a \<notin> set (snd (snd c))"
  shows "fromPeerAddress (AddPeer_calls ss (before @ (name, key, addrs) # after)) a = Some key"
  using assms
proof (induction before arbitrary: ss)
  case Nil
  then show ?case
    by (simp add: fromPeerAddress_AddPeer_calls_other fromPeerAddress_AddPeer)
next
  case (Cons c before)
  then show ?case by (cases c) simp
qed

text \<open>A registered address is mapped to the key of one of the calls that register it.\<close>

lemma fromPeerAddress_AddPeer_calls_some:
  "\<exists>c\<in>set cs. a \<in> set (snd (snd c)) \<Longrightarrow>
   \<exists>c\<in>set cs. a \<in> set (snd (snd c)) \<and> fromPeerAddress (AddPeer_calls ss cs) a = Some (fst (snd c))"
proof (induction ss cs rule: AddPeer_calls.induct)
  case (1 ss)
  then show ?case by simp
next
  case (2 ss name key addrs cs)
  show ?case
  proof (cases "\<exists>c\<in>set cs. a \<in> set (snd (snd c))")
    case True
    then show ?thesis using "2.IH" by auto
  next
    case False
    with "2.prems" have "a \<in> set addrs" by auto
    moreover have "fromPeerAddress (AddPeer_calls (AddPeer ss name key addrs) cs) a =
        fromPeerAddress (AddPeer ss name key addrs) a"
      using False by (intro fromPeerAddress_AddPeer_calls_other) blast
    ultimately show ?thesis by (simp add: fromPeerAddress_AddPeer)
  qed
qed

text \<open>The addresses in a peer's list were there before or come from a call with its key.\<close>

lemma peerAddresses_AddPeer_calls:
  "peerAddresses (AddPeer_calls ss cs) k = Some as \<Longrightarrow> a \<in> set as \<Longrightarrow>
   (\<exists>bs. peerAddresses ss k = Some bs \<and> a \<in> set bs) \<or>
   (\<exists>c\<in>set cs. fst (snd c) = k \<and> a \<in> set (snd (snd c)))"
proof (induction ss cs rule: AddPeer_calls.induct)
  case (1 ss)
  then show ?case by simp
next
  case (2 ss name key addrs cs)
  from "2.IH" [OF "2.prems"[simplified]]
  consider bs where "peerAddresses (AddPeer ss name key addrs) k = Some bs" "a \<in> set bs"
    | c where "c \<in> set cs" "fst (snd c) = k" "a \<in> set (snd (snd c))"
    by (auto simp del: AddPeer_calls.simps)
  then show ?case
  proof cases
    case 1
    then show ?thesis
      by (auto simp: peerAddresses_AddPeer split: if_splits option.splits)
  next
    case 2
    then show ?thesis by auto
  qed
qed

text \<open>An address passed to a call is in the list of that call's key from then on.\<close>

lemma peerAddresses_AddPeer_keeps:
  "\<exists>as. peerAddresses ss k = Some as \<and> a \<in> set as \<Longrightarrow>
   \<exists>as. peerAddresses (AddPeer ss name key addrs) k = Some as \<and> a \<in> set as"
  by (auto simp: peerAddresses_AddPeer)

lemma peerAddresses_AddPeer_calls_keeps:
  "\<exists>as. peerAddresses ss k = Some as \<and> a \<in> set as \<Longrightarrow>
   \<exists>as. peerAddresses (AddPeer_calls ss cs) k = Some as \<and> a \<in> set as"
proof (induction ss cs rule: AddPeer_calls.induct)
  case (1 ss)
  then show ?case by simp
next
  case (2 ss name key addrs cs)
  from "2.IH" [OF peerAddresses_AddPeer_keeps [OF "2.prems"]] show ?case by simp
qed

lemma peerAddresses_AddPeer_adds:
  "a \<in> set addrs \<Longrightarrow>
   \<exists>as. peerAddresses (AddPeer ss name key addrs) key = Some as \<and> a \<in> set as"
  by (auto simp: peerAddresses_AddPeer)

lemma peerAddresses_AddPeer_calls_adds:
  "c \<in> set cs \<Longrightarrow> a \<in> set (snd (snd c)) \<Longrightarrow>
   \<exists>as. peerAddresses (AddPeer_calls ss cs) (fst (snd c)) = Some as \<and> a \<in> set as"
proof (induction ss cs rule: AddPeer_calls.induct)
  case (1 ss)
  then show ?case by simp
next
  case (2 ss name key addrs cs)
  show ?case
  proof (cases "c = (name, key, addrs)")
    case True
    with "2.prems" have "a \<in> set addrs" by simp
    from peerAddresses_AddPeer_calls_keeps [OF peerAddresses_AddPeer_adds [OF this]]
    show ?thesis using True by simp
  next
    case False
    with "2.prems" have "c \<in> set cs" by simp
    from "2.IH" [OF this "2.prems"(2)] show ?thesis by simp
  qed
qed

lemma newSourceSink_fresh:
  assumes "newSourceSink e name key addrs = Inr (ss, net)"
  shows "peerAddresses ss = Map.empty" "fromPeerAddress ss = Map.empty"
    "peerNames ss = Map.empty" "incoming ss = \<lparr>sendq = [], chan_closed = False\<rparr>"
  using assms by (auto simp: newSourceSink_def Let_def split: option.splits sum.splits)

text \<open>
  C8. After any sequence of \<open>AddPeer\<close> calls on a newly built adapter, every address in
  any peer's address list is a key of \<open>fromPeerAddress\<close>, and \<open>fromPeerAddress\<close> (a
  map, so one key for an address) gives an address the key of the most recent call that
  registered it.
\<close>

theorem AddPeer_index_covers_lists_last_wins:
  assumes "newSourceSink e name key addrs = Inr (ss, net)"
  shows "(\<forall>k as a. peerAddresses (AddPeer_calls ss cs) k = Some as \<and> a \<in> set as \<longrightarrow>
            a \<in> dom (fromPeerAddress (AddPeer_calls ss cs))) \<and>
         (\<forall>before n k as after a.
            cs = before @ (n, k, as) # after \<and> a \<in> set as \<and>
            (\<forall>c\<in>set after. a \<notin> set (snd (snd c))) \<longrightarrow>
            fromPeerAddress (AddPeer_calls ss cs) a = Some k)"
proof (intro conjI allI impI)
  fix k as a
  assume h: "peerAddresses (AddPeer_calls ss cs) k = Some as \<and> a \<in> set as"
  then have "\<exists>c\<in>set cs. fst (snd c) = k \<and> a \<in> set (snd (snd c))"
    using peerAddresses_AddPeer_calls [of ss cs k as a] newSourceSink_fresh(1) [OF assms]
    by simp
  then have "\<exists>c\<in>set cs. a \<in> set (snd (snd c))" by blast
  from fromPeerAddress_AddPeer_calls_some [OF this, of ss]
  show "a \<in> dom (fromPeerAddress (AddPeer_calls ss cs))" by blast
next
  fix before n k as after a
  assume "cs = before @ (n, k, as) # after \<and> a \<in> set as \<and>
            (\<forall>c\<in>set after. a \<notin> set (snd (snd c)))"
  then show "fromPeerAddress (AddPeer_calls ss cs) a = Some k"
    using fromPeerAddress_AddPeer_calls_last [of a as after ss before n k] by simp
qed

theorem AddPeer_index_covers_lists_last_wins_witness:
  "Addr6 1 [] \<in> dom (fromPeerAddress (AddPeer_calls ss_example peers_overwrite_example)) \<and>
   fromPeerAddress (AddPeer_calls ss_example peers_overwrite_example) (Addr4 0x0A000002) = Some 12"
proof -
  note T = AddPeer_index_covers_lists_last_wins
    [OF newSourceSink_example, of peers_overwrite_example]
  have "peerAddresses (AddPeer_calls ss_example peers_overwrite_example) 11 =
          Some [Addr4 0x0A000002, Addr6 1 []] \<and>
        Addr6 1 [] \<in> set [Addr4 0x0A000002, Addr6 1 []]"
    by (simp add: peers_overwrite_example_def AddPeer_def ss_example_def)
  with T have 1: "Addr6 1 [] \<in> dom (fromPeerAddress (AddPeer_calls ss_example peers_overwrite_example))"
    by blast
  have "peers_overwrite_example =
          [(''b'', 11, [Addr4 0x0A000002, Addr6 1 []])] @ (''c'', 12, [Addr4 0x0A000002]) # [] \<and>
        Addr4 0x0A000002 \<in> set [Addr4 0x0A000002] \<and>
        (\<forall>c\<in>set ([] :: peer_call list). Addr4 0x0A000002 \<notin> set (snd (snd c)))"
    by (simp add: peers_overwrite_example_def)
  with T have 2: "fromPeerAddress (AddPeer_calls ss_example peers_overwrite_example)
      (Addr4 0x0A000002) = Some 12"
    by blast
  from 1 2 show ?thesis by simp
qed

text \<open>
  C4. Take any sequence of \<open>AddPeer\<close> calls on a newly built adapter in which no
  address is registered for two different keys. Every address passed to a call is then
  in the address list of that call's key, and the lookup \<open>fromPeerAddress\<close> that \<open>Read\<close>
  makes gives it that key; the lookup gives every address in the list of a peer that
  peer's key; and it finds nothing for an address that no call registered.
\<close>

theorem ResolvePeerByAddress_correct:
  assumes "newSourceSink e name key addrs = Inr (ss, net)"
    and "\<forall>c1\<in>set cs. \<forall>c2\<in>set cs. \<forall>a.
           a \<in> set (snd (snd c1)) \<and> a \<in> set (snd (snd c2)) \<longrightarrow> fst (snd c1) = fst (snd c2)"
  shows "(\<forall>c\<in>set cs. \<forall>a\<in>set (snd (snd c)).
            fromPeerAddress (AddPeer_calls ss cs) a = Some (fst (snd c)) \<and>
            (\<exists>as. peerAddresses (AddPeer_calls ss cs) (fst (snd c)) = Some as \<and> a \<in> set as)) \<and>
         (\<forall>k as a. peerAddresses (AddPeer_calls ss cs) k = Some as \<and> a \<in> set as \<longrightarrow>
            fromPeerAddress (AddPeer_calls ss cs) a = Some k) \<and>
         (\<forall>a. (\<forall>c\<in>set cs. a \<notin> set (snd (snd c))) \<longrightarrow>
            fromPeerAddress (AddPeer_calls ss cs) a = None)"
proof -
  have owner: "fromPeerAddress (AddPeer_calls ss cs) a = Some (fst (snd c))"
    if "c \<in> set cs" and "a \<in> set (snd (snd c))" for c a
  proof -
    from that have "\<exists>c\<in>set cs. a \<in> set (snd (snd c))" by blast
    from fromPeerAddress_AddPeer_calls_some [OF this, of ss]
    obtain c2 where c2: "c2 \<in> set cs" "a \<in> set (snd (snd c2))"
      "fromPeerAddress (AddPeer_calls ss cs) a = Some (fst (snd c2))" by blast
    from assms(2) that c2 have "fst (snd c) = fst (snd c2)" by blast
    with c2 show ?thesis by simp
  qed
  have inputs: "\<forall>c\<in>set cs. \<forall>a\<in>set (snd (snd c)).
            fromPeerAddress (AddPeer_calls ss cs) a = Some (fst (snd c)) \<and>
            (\<exists>as. peerAddresses (AddPeer_calls ss cs) (fst (snd c)) = Some as \<and> a \<in> set as)"
    using owner peerAddresses_AddPeer_calls_adds by blast
  have lists: "fromPeerAddress (AddPeer_calls ss cs) a = Some k"
    if "peerAddresses (AddPeer_calls ss cs) k = Some as \<and> a \<in> set as" for k as a
  proof -
    from that obtain c1 where "c1 \<in> set cs" "fst (snd c1) = k" "a \<in> set (snd (snd c1))"
      using peerAddresses_AddPeer_calls [of ss cs k as a] newSourceSink_fresh(1) [OF assms(1)]
      by auto
    with owner [of c1 a] show ?thesis by simp
  qed
  have others: "fromPeerAddress (AddPeer_calls ss cs) a = None"
    if "\<forall>c\<in>set cs. a \<notin> set (snd (snd c))" for a
    using that fromPeerAddress_AddPeer_calls_other [of cs a ss]
      newSourceSink_fresh(2) [OF assms(1)]
    by simp
  from inputs lists others show ?thesis by blast
qed

theorem ResolvePeerByAddress_correct_witness:
  "fromPeerAddress (AddPeer_calls ss_example peers_example) (Addr4 0x0A000002) = Some 11 \<and>
   fromPeerAddress (AddPeer_calls ss_example peers_example) (Addr6 1 []) = Some 11 \<and>
   (\<exists>as. peerAddresses (AddPeer_calls ss_example peers_example) 11 = Some as \<and>
         Addr6 1 [] \<in> set as) \<and>
   fromPeerAddress (AddPeer_calls ss_example peers_example) (Addr4 0x0A000003) = Some 12 \<and>
   fromPeerAddress (AddPeer_calls ss_example peers_example) (Addr4 0x0A000009) = None"
proof -
  have pre: "\<forall>c1\<in>set peers_example. \<forall>c2\<in>set peers_example. \<forall>a.
           a \<in> set (snd (snd c1)) \<and> a \<in> set (snd (snd c2)) \<longrightarrow> fst (snd c1) = fst (snd c2)"
    by (simp add: peers_example_def)
  note T = ResolvePeerByAddress_correct [OF newSourceSink_example pre]
  have b: "(''b'', 11, [Addr4 0x0A000002, Addr6 1 []]) \<in> set peers_example"
    by (simp add: peers_example_def)
  from T b have "\<forall>a\<in>set (snd (snd (''b'', 11 :: NoisePublicKey, [Addr4 0x0A000002, Addr6 1 []]))).
      fromPeerAddress (AddPeer_calls ss_example peers_example) a =
        Some (fst (snd (''b'', 11 :: NoisePublicKey, [Addr4 0x0A000002, Addr6 1 []]))) \<and>
      (\<exists>as. peerAddresses (AddPeer_calls ss_example peers_example)
              (fst (snd (''b'', 11 :: NoisePublicKey, [Addr4 0x0A000002, Addr6 1 []]))) = Some as \<and>
            a \<in> set as)"
    by blast
  then have 1: "fromPeerAddress (AddPeer_calls ss_example peers_example) (Addr4 0x0A000002) = Some 11"
    and 2: "fromPeerAddress (AddPeer_calls ss_example peers_example) (Addr6 1 []) = Some 11"
    and 3: "\<exists>as. peerAddresses (AddPeer_calls ss_example peers_example) 11 = Some as \<and>
         Addr6 1 [] \<in> set as"
    by simp_all
  have "peerAddresses (AddPeer_calls ss_example peers_example) 12 = Some [Addr4 0x0A000003] \<and>
        Addr4 0x0A000003 \<in> set [Addr4 0x0A000003]"
    by (simp add: peers_example_def AddPeer_def ss_example_def)
  with T have 4: "fromPeerAddress (AddPeer_calls ss_example peers_example) (Addr4 0x0A000003) = Some 12"
    by blast
  have "\<forall>c\<in>set peers_example. Addr4 0x0A000009 \<notin> set (snd (snd c))"
    by (simp add: peers_example_def)
  with T have 5: "fromPeerAddress (AddPeer_calls ss_example peers_example) (Addr4 0x0A000009) = None"
    by blast
  from 1 2 3 4 5 show ?thesis by blast
qed

section \<open>\<open>newSourceSink\<close>\<close>


lemma all_less_Suc_split: "(\<forall>k<Suc n. P k) \<longleftrightarrow> P 0 \<and> (\<forall>k<n. P (Suc k))"
  by (auto simp: less_Suc_eq_0_disj)

lemma addLocalAddrs_Inr:
  "addLocalAddrs e cs hasV4 hasV6 addrs = Inr (cs', hasV4', hasV6') \<Longrightarrow>
   cs' = cs @ map (\<lambda>a. AddProtocolAddress 1 (protoAddr a)) addrs \<and>
   hasV4' = (hasV4 \<or> (\<exists>a\<in>set addrs. Is4 a)) \<and>
   hasV6' = (hasV6 \<or> (\<exists>a\<in>set addrs. Is6 a))"
proof (induction addrs arbitrary: cs hasV4 hasV6)
  case Nil
  then show ?case by simp
next
  case (Cons a addrs)
  from Cons.prems have
    r: "addLocalAddrs e (cs @ [AddProtocolAddress 1 (protoAddr a)])
          (if Is4 a then True else hasV4)
          (if Is4 a then hasV6 else if Is6 a then True else hasV6) addrs =
        Inr (cs', hasV4', hasV6')"
    by (auto split: option.splits if_splits)
  from Cons.IH [OF r] show ?case by (cases a) auto
qed

lemma addLocalAddrs_succeeds_iff:
  "(\<exists>r. addLocalAddrs e cs hasV4 hasV6 addrs = Inr r) \<longleftrightarrow>
   (\<forall>k<length addrs.
      tcpip_Error e (cs @ map (\<lambda>a. AddProtocolAddress 1 (protoAddr a)) (take k addrs))
        (AddProtocolAddress 1 (protoAddr (addrs ! k))) = None)"
proof (induction addrs arbitrary: cs hasV4 hasV6)
  case Nil
  then show ?case by simp
next
  case (Cons a addrs)
  show ?case
  proof (cases "tcpip_Error e cs (AddProtocolAddress 1 (protoAddr a))")
    case None
    then show ?thesis
      using Cons.IH [of "cs @ [AddProtocolAddress 1 (protoAddr a)]"]
      by (simp add: all_less_Suc_split)
  next
    case (Some err)
    then show ?thesis by (auto simp: all_less_Suc_split)
  qed
qed

lemma protoAddr_call: "AddProtocolAddress 1 (protoAddr a) = address_call a"
  by (cases a) (simp_all add: protoAddr_def IPv4ProtocolNumber_def IPv6ProtocolNumber_def)

text \<open>
  C5. When \<open>newSourceSink\<close> returns an adapter, the calls it has made on the stack are:
  the one NIC (number 1) created, then for each supplied local address, in order, one
  \<open>AddProtocolAddress\<close> on that NIC of that very address with the protocol number of
  its IP version, then the IPv4 default route exactly when an IPv4 address was supplied
  and the IPv6 default route exactly when an IPv6 address was supplied. It returns an
  error, and no adapter, exactly when enabling TCP SACK, creating the NIC or adding one
  of the addresses fails.
\<close>

theorem newSourceSink_addresses_and_routes:
  "(\<forall>ss net. newSourceSink e name key addrs = Inr (ss, net) \<longrightarrow>
      calls ss =
        [stack_New, channel_New queueSize (DefaultMTU e),
         SetTransportProtocolOption_TCPSACKEnabled True, AddNotify, CreateNIC 1] @
        map address_call addrs @
        (if \<exists>a\<in>set addrs. Is4 a then [AddRoute \<lparr>Destination = IPv4EmptySubnet, NIC = 1\<rparr>] else []) @
        (if \<exists>a\<in>set addrs. Is6 a then [AddRoute \<lparr>Destination = IPv6EmptySubnet, NIC = 1\<rparr>] else [])) \<and>
   ((\<exists>err. newSourceSink e name key addrs = Inl err) \<longleftrightarrow>
      tcpip_Error e [stack_New, channel_New queueSize (DefaultMTU e)]
        (SetTransportProtocolOption_TCPSACKEnabled True) \<noteq> None \<or>
      tcpip_Error e [stack_New, channel_New queueSize (DefaultMTU e),
                     SetTransportProtocolOption_TCPSACKEnabled True, AddNotify]
        (CreateNIC 1) \<noteq> None \<or>
      (\<exists>k<length addrs.
         tcpip_Error e (calls_before_address e addrs k) (address_call (addrs ! k)) \<noteq> None))"
proof (intro conjI allI impI)
  fix ss net
  assume ok: "newSourceSink e name key addrs = Inr (ss, net)"
  then obtain cs2 hasV4 hasV6 where
    a: "addLocalAddrs e [stack_New, channel_New queueSize (DefaultMTU e),
          SetTransportProtocolOption_TCPSACKEnabled True, AddNotify, CreateNIC 1]
          False False addrs = Inr (cs2, hasV4, hasV6)"
    and c: "calls ss = cs2 @
        (if hasV4 then [AddRoute \<lparr>Destination = IPv4EmptySubnet, NIC = 1\<rparr>] else []) @
        (if hasV6 then [AddRoute \<lparr>Destination = IPv6EmptySubnet, NIC = 1\<rparr>] else [])"
    by (auto simp: newSourceSink_def Let_def split: option.splits sum.splits)
  from addLocalAddrs_Inr [OF a, unfolded protoAddr_call] c
  show "calls ss =
        [stack_New, channel_New queueSize (DefaultMTU e),
         SetTransportProtocolOption_TCPSACKEnabled True, AddNotify, CreateNIC 1] @
        map address_call addrs @
        (if \<exists>a\<in>set addrs. Is4 a then [AddRoute \<lparr>Destination = IPv4EmptySubnet, NIC = 1\<rparr>] else []) @
        (if \<exists>a\<in>set addrs. Is6 a then [AddRoute \<lparr>Destination = IPv6EmptySubnet, NIC = 1\<rparr>] else [])"
    by simp
next
  let ?cs = "[stack_New, channel_New queueSize (DefaultMTU e),
          SetTransportProtocolOption_TCPSACKEnabled True, AddNotify, CreateNIC 1]"
  have "(\<exists>err. addLocalAddrs e ?cs False False addrs = Inl err) \<longleftrightarrow>
        \<not> (\<exists>r. addLocalAddrs e ?cs False False addrs = Inr r)"
    by (cases "addLocalAddrs e ?cs False False addrs") auto
  also have "\<dots> \<longleftrightarrow> (\<exists>k<length addrs.
         tcpip_Error e (calls_before_address e addrs k) (address_call (addrs ! k)) \<noteq> None)"
    unfolding addLocalAddrs_succeeds_iff calls_before_address_def protoAddr_call by auto
  finally have loop: "(\<exists>err. addLocalAddrs e ?cs False False addrs = Inl err) \<longleftrightarrow>
     (\<exists>k<length addrs.
         tcpip_Error e (calls_before_address e addrs k) (address_call (addrs ! k)) \<noteq> None)" .
  show "(\<exists>err. newSourceSink e name key addrs = Inl err) \<longleftrightarrow>
      tcpip_Error e [stack_New, channel_New queueSize (DefaultMTU e)]
        (SetTransportProtocolOption_TCPSACKEnabled True) \<noteq> None \<or>
      tcpip_Error e [stack_New, channel_New queueSize (DefaultMTU e),
                     SetTransportProtocolOption_TCPSACKEnabled True, AddNotify]
        (CreateNIC 1) \<noteq> None \<or>
      (\<exists>k<length addrs.
         tcpip_Error e (calls_before_address e addrs k) (address_call (addrs ! k)) \<noteq> None)"
    unfolding loop [symmetric]
    by (auto simp: newSourceSink_def Let_def split: option.splits sum.splits)
qed

theorem newSourceSink_addresses_and_routes_witness:
  "(\<exists>ss net. newSourceSink env_ok ''a'' 7 [Addr4 0x0A000001, Addr6 1 []] = Inr (ss, net) \<and>
      calls ss =
        [stack_New, channel_New 1024 1420,
         SetTransportProtocolOption_TCPSACKEnabled True, AddNotify, CreateNIC 1,
         AddProtocolAddress 1
           \<lparr>Protocol = 0x0800,
            AddressWithPrefix = \<lparr>Address = Address_4 0x0A000001, PrefixLen = 32\<rparr>\<rparr>,
         AddProtocolAddress 1
           \<lparr>Protocol = 0x86dd,
            AddressWithPrefix = \<lparr>Address = Address_16 1, PrefixLen = 128\<rparr>\<rparr>,
         AddRoute \<lparr>Destination = IPv4EmptySubnet, NIC = 1\<rparr>,
         AddRoute \<lparr>Destination = IPv6EmptySubnet, NIC = 1\<rparr>]) \<and>
   calls ss_example =
     [stack_New, channel_New 1024 1420,
      SetTransportProtocolOption_TCPSACKEnabled True, AddNotify, CreateNIC 1,
      AddProtocolAddress 1
        \<lparr>Protocol = 0x0800,
         AddressWithPrefix = \<lparr>Address = Address_4 0x0A000001, PrefixLen = 32\<rparr>\<rparr>,
      AddRoute \<lparr>Destination = IPv4EmptySubnet, NIC = 1\<rparr>] \<and>
   (\<exists>err. newSourceSink env_duplicate_fails ''a'' 7 [Addr4 0x0A000001, Addr4 0x0A000001] = Inl err)"
proof -
  have "\<not> (\<exists>err. newSourceSink env_ok ''a'' 7 [Addr4 0x0A000001, Addr6 1 []] = Inl err)"
    using newSourceSink_addresses_and_routes [of env_ok "''a''" 7 "[Addr4 0x0A000001, Addr6 1 []]"]
    by (simp add: env_ok_def)
  then obtain ss net where
    ok: "newSourceSink env_ok ''a'' 7 [Addr4 0x0A000001, Addr6 1 []] = Inr (ss, net)"
    by (cases "newSourceSink env_ok ''a'' 7 [Addr4 0x0A000001, Addr6 1 []]") auto
  with newSourceSink_addresses_and_routes [of env_ok "''a''" 7 "[Addr4 0x0A000001, Addr6 1 []]"]
  have "calls ss =
        [stack_New, channel_New 1024 1420,
         SetTransportProtocolOption_TCPSACKEnabled True, AddNotify, CreateNIC 1,
         AddProtocolAddress 1
           \<lparr>Protocol = 0x0800,
            AddressWithPrefix = \<lparr>Address = Address_4 0x0A000001, PrefixLen = 32\<rparr>\<rparr>,
         AddProtocolAddress 1
           \<lparr>Protocol = 0x86dd,
            AddressWithPrefix = \<lparr>Address = Address_16 1, PrefixLen = 128\<rparr>\<rparr>,
         AddRoute \<lparr>Destination = IPv4EmptySubnet, NIC = 1\<rparr>,
         AddRoute \<lparr>Destination = IPv6EmptySubnet, NIC = 1\<rparr>]"
    by (simp add: queueSize_def env_ok_def)
  with ok have 1: "\<exists>ss net. newSourceSink env_ok ''a'' 7 [Addr4 0x0A000001, Addr6 1 []] = Inr (ss, net) \<and>
      calls ss =
        [stack_New, channel_New 1024 1420,
         SetTransportProtocolOption_TCPSACKEnabled True, AddNotify, CreateNIC 1,
         AddProtocolAddress 1
           \<lparr>Protocol = 0x0800,
            AddressWithPrefix = \<lparr>Address = Address_4 0x0A000001, PrefixLen = 32\<rparr>\<rparr>,
         AddProtocolAddress 1
           \<lparr>Protocol = 0x86dd,
            AddressWithPrefix = \<lparr>Address = Address_16 1, PrefixLen = 128\<rparr>\<rparr>,
         AddRoute \<lparr>Destination = IPv4EmptySubnet, NIC = 1\<rparr>,
         AddRoute \<lparr>Destination = IPv6EmptySubnet, NIC = 1\<rparr>]"
    by blast
  have 2: "calls ss_example =
     [stack_New, channel_New 1024 1420,
      SetTransportProtocolOption_TCPSACKEnabled True, AddNotify, CreateNIC 1,
      AddProtocolAddress 1
        \<lparr>Protocol = 0x0800,
         AddressWithPrefix = \<lparr>Address = Address_4 0x0A000001, PrefixLen = 32\<rparr>\<rparr>,
      AddRoute \<lparr>Destination = IPv4EmptySubnet, NIC = 1\<rparr>]"
    using newSourceSink_addresses_and_routes [of env_ok "''a''" 7 "[Addr4 0x0A000001]"]
      newSourceSink_example
    by (simp add: queueSize_def env_ok_def)
  note U = newSourceSink_addresses_and_routes
    [of env_duplicate_fails "''a''" 7 "[Addr4 0x0A000001, Addr4 0x0A000001]"]
  have "tcpip_Error env_duplicate_fails
          (calls_before_address env_duplicate_fails [Addr4 0x0A000001, Addr4 0x0A000001] 1)
          (address_call ([Addr4 0x0A000001, Addr4 0x0A000001] ! 1)) \<noteq> None"
    by (simp add: env_duplicate_fails_def calls_before_address_def)
  then have "\<exists>k<length [Addr4 0x0A000001, Addr4 0x0A000001 :: Addr].
      tcpip_Error env_duplicate_fails
          (calls_before_address env_duplicate_fails [Addr4 0x0A000001, Addr4 0x0A000001] k)
          (address_call ([Addr4 0x0A000001, Addr4 0x0A000001] ! k)) \<noteq> None"
    by (intro exI [of _ 1]) simp
  with U have 3: "\<exists>err. newSourceSink env_duplicate_fails ''a'' 7
      [Addr4 0x0A000001, Addr4 0x0A000001] = Inl err"
    by blast
  from 1 2 3 show ?thesis by blast
qed

section \<open>\<open>Close\<close> and the closed channel\<close>

lemma incoming_AddPeer: "incoming (AddPeer ss name key addrs) = incoming ss"
  by (simp add: AddPeer_def incoming_AddPeer_addrs)

lemma Read_closed:
  "chan_closed (incoming ss) \<Longrightarrow>
   Read ss bufs sizes destinations offset =
     Return (ss, (bufs, sizes, destinations), 0, Some ErrClosed)"
  by (simp add: Read_def)

lemma Close_closes:
  "Close e ss = Return (ss', r) \<Longrightarrow> incoming ss' = \<lparr>sendq = [], chan_closed = True\<rparr>"
  by (auto simp: Close_def split: if_splits)

text \<open>
  C6, as the code has it. On an adapter whose channel is open and has no suspended
  sender, \<open>Close\<close> removes the NIC, closes the stack, closes the link endpoint and
  closes the delivery channel, once each and in that order, whatever the stack answers;
  the error of \<open>RemoveNIC\<close> is not read and \<open>Close\<close> returns \<open>nil\<close>.
\<close>

theorem Close_teardown_order:
  assumes "\<not> chan_closed (incoming ss)" and "sendq (incoming ss) = []"
  shows "Close e ss =
     Return (ss\<lparr>calls := calls ss @ [RemoveNIC 1, stack_Close, ep_Close, close_incoming],
                incoming := \<lparr>sendq = [], chan_closed = True\<rparr>\<rparr>, None)"
  using assms by (simp add: Close_def)

theorem Close_teardown_order_witness:
  "Close env_RemoveNIC_fails ss_example = Return (ss_closed_example, None)"
  using Close_teardown_order [of ss_example env_RemoveNIC_fails]
  by (simp add: ss_example_def ss_closed_example_def)

text \<open>
  C6 as stated fails: on a stack whose \<open>RemoveNIC\<close> answers with an error, \<open>Close\<close>
  returns \<open>nil\<close>, so the error is not reported.
\<close>

theorem Close_error_counterexample:
  "tcpip_Error env_RemoveNIC_fails (calls ss_example) (RemoveNIC 1) = Some ''unknown nic id'' \<and>
   Close env_RemoveNIC_fails ss_example = Return (ss_closed_example, None)"
  by (simp add: Close_def env_RemoveNIC_fails_def ss_example_def ss_closed_example_def)

text \<open>
  C3. On an adapter whose channel is open with no suspended sender, a \<open>Read\<close> is
  suspended in its first receive, and \<open>Close\<close> returns and leaves the channel closed.
  The suspended \<open>Read\<close> has changed nothing, so when \<open>Close\<close> wakes it, it goes on as
  \<open>Read\<close> does on the state \<open>Close\<close> leaves: it returns \<open>net.ErrClosed\<close> with the count
  0. So does every later \<open>Read\<close>, on any later state of the adapter (its channel is the
  closed one), whatever its arguments; the caller's slices stay as they were.
\<close>

theorem Read_after_Close:
  assumes "\<not> chan_closed (incoming ss)" and "sendq (incoming ss) = []"
  shows "\<exists>ss'. Close e ss = Return (ss', None) \<and>
           chan_closed (incoming ss') \<and>
           Read ss bufs sizes destinations offset = Blocked \<and>
           Read ss' bufs sizes destinations offset =
             Return (ss', (bufs, sizes, destinations), 0, Some ErrClosed) \<and>
           (\<forall>ss'' bufs' sizes' destinations' offset'.
              incoming ss'' = incoming ss' \<longrightarrow>
              Read ss'' bufs' sizes' destinations' offset' =
                Return (ss'', (bufs', sizes', destinations'), 0, Some ErrClosed))"
proof -
  obtain ss' where c: "Close e ss = Return (ss', None)"
    using assms by (simp add: Close_def)
  from Close_closes [OF c] have closed: "chan_closed (incoming ss')" by simp
  have blocked: "Read ss bufs sizes destinations offset = Blocked"
    using assms by (simp add: Read_def)
  have later: "Read ss'' bufs' sizes' destinations' offset' =
      Return (ss'', (bufs', sizes', destinations'), 0, Some ErrClosed)"
    if "incoming ss'' = incoming ss'" for ss'' bufs' sizes' destinations' offset'
    using that closed by (simp add: Read_closed)
  from c closed blocked later [of ss' bufs sizes destinations offset] later
  show ?thesis by blast
qed

theorem Read_after_Close_witness:
  "Close env_ok ss_example = Return (ss_closed_example, None) \<and>
   Read ss_example [[0, 0]] [0] [0] 0 = Blocked \<and>
   Read ss_closed_example [[0, 0]] [0] [0] 0 =
     Return (ss_closed_example, ([[0, 0]], [0], [0]), 0, Some ErrClosed) \<and>
   Read (AddPeer ss_closed_example ''b'' 11 [Addr4 0x0A000002]) [[0, 0, 0]] [1] [2] 1 =
     Return (AddPeer ss_closed_example ''b'' 11 [Addr4 0x0A000002], ([[0, 0, 0]], [1], [2]), 0,
             Some ErrClosed)"
proof -
  have "\<not> chan_closed (incoming ss_example)" and "sendq (incoming ss_example) = []"
    by (simp_all add: ss_example_def)
  from Read_after_Close [OF this, of env_ok "[[0, 0]]" "[0]" "[0]" 0]
  obtain ss' where c: "Close env_ok ss_example = Return (ss', None)"
    and b: "Read ss_example [[0, 0]] [0] [0] 0 = Blocked"
    and r: "Read ss' [[0, 0]] [0] [0] 0 = Return (ss', ([[0, 0]], [0], [0]), 0, Some ErrClosed)"
    and l: "\<forall>ss'' bufs' sizes' destinations' offset'.
              incoming ss'' = incoming ss' \<longrightarrow>
              Read ss'' bufs' sizes' destinations' offset' =
                Return (ss'', (bufs', sizes', destinations'), 0, Some ErrClosed)"
    by blast
  have "Close env_ok ss_example = Return (ss_closed_example, None)"
    by (simp add: Close_def ss_example_def ss_closed_example_def)
  with c have s: "ss' = ss_closed_example" by simp
  have "incoming (AddPeer ss_closed_example ''b'' 11 [Addr4 0x0A000002]) =
      incoming ss_closed_example"
    by (simp add: incoming_AddPeer)
  with l s have "Read (AddPeer ss_closed_example ''b'' 11 [Addr4 0x0A000002]) [[0, 0, 0]] [1] [2] 1 =
     Return (AddPeer ss_closed_example ''b'' 11 [Addr4 0x0A000002], ([[0, 0, 0]], [1], [2]), 0,
             Some ErrClosed)"
    by blast
  with c b r s show ?thesis by simp
qed

section \<open>\<open>Read\<close>\<close>



lemma peerAddr_malformed: "malformed pkt \<Longrightarrow> peerAddr pkt = Inl (format_error pkt)"
  by (auto simp: malformed_def peerAddr_def format_error_def
      IPv4ProtocolNumber_def IPv6ProtocolNumber_def)

lemma peerAddr_destination: "\<not> malformed pkt \<Longrightarrow> peerAddr pkt = Inr (destination pkt)"
  by (auto simp: malformed_def peerAddr_def destination_def AddrFrom4_def AddrFrom16_def)

lemma View_Read_nonempty:
  "v \<noteq> [] \<Longrightarrow>
   View_Read v p = (take (min (length p) (length v)) v @ drop (min (length p) (length v)) p,
                    min (length p) (length v), None)"
  by (simp add: View_Read_def Let_def)

lemma length_filled: "0 \<le> offset \<Longrightarrow> offset \<le> int (length buf) \<Longrightarrow> length (filled offset buf pkt) = length buf"
  by (auto simp: filled_def filled_size_def)

lemma packetFn_malformed:
  "malformed pkt \<Longrightarrow>
   packetFn index offset (bufs, sizes, dests) idx pkt =
     Return ((bufs, sizes, dests), Some (format_error pkt))"
  by (simp add: peerAddr_malformed)

lemma packetFn_unresolved:
  "\<not> malformed pkt \<Longrightarrow> index (destination pkt) = None \<Longrightarrow> idx < length dests \<Longrightarrow>
   packetFn index offset (bufs, sizes, dests) idx pkt =
     Return ((bufs, sizes, dests[idx := 0]), Some (Errorf ''unknown destination address''))"
  by (simp add: peerAddr_destination)

lemma packetFn_filled:
  assumes "\<not> malformed pkt" and "index (destination pkt) = Some key" and "ToView pkt \<noteq> []"
    and "idx < length bufs" and "idx < length sizes" and "idx < length dests"
    and "0 \<le> offset" and "offset \<le> int (length (bufs ! idx))"
  shows "packetFn index offset (bufs, sizes, dests) idx pkt =
     Return ((bufs[idx := filled offset (bufs ! idx) pkt],
              sizes[idx := int (filled_size offset (bufs ! idx) pkt)],
              dests[idx := key]), None)"
  using assms
  by (simp add: peerAddr_destination View_Read_nonempty filled_def filled_size_def add.commute)

lemma packetFn_lengths:
  "packetFn index offset (bufs, sizes, dests) idx pkt = Return ((bufs', sizes', dests'), err) \<Longrightarrow>
   length bufs' = length bufs \<and> length sizes' = length sizes \<and> length dests' = length dests"
  by (auto simp: Let_def split: sum.splits if_splits prod.splits option.splits)

lemma packetFn_not_Blocked: "packetFn index offset bt idx pkt \<noteq> Blocked"
  by (cases bt) (auto simp: Let_def split: sum.splits if_splits prod.splits option.splits)

lemma Read_loop_not_Blocked: "Read_loop index cl offset bt count q \<noteq> Blocked"
  by (induction q arbitrary: bt count)
     (auto simp: packetFn_not_Blocked simp del: packetFn.simps split: exec.splits option.splits)

lemma Read_loop_filled_prefix:
  assumes "\<forall>q\<in>set pre. \<not> malformed q \<and> index (destination q) \<noteq> None \<and> ToView q \<noteq> []"
    and "count + length pre \<le> length bufs"
    and "length bufs \<le> length sizes" and "length bufs \<le> length dests"
    and "0 \<le> offset" and "\<forall>b\<in>set bufs. offset \<le> int (length b)"
  shows "\<exists>bufs' sizes' dests'.
     Read_loop index False offset (bufs, sizes, dests) count (pre @ rest) =
       Read_loop index False offset (bufs', sizes', dests') (count + length pre) rest \<and>
     length bufs' = length bufs \<and> length sizes' = length sizes \<and> length dests' = length dests \<and>
     (\<forall>b\<in>set bufs'. offset \<le> int (length b)) \<and>
     (\<forall>i<count. bufs' ! i = bufs ! i \<and> sizes' ! i = sizes ! i \<and> dests' ! i = dests ! i) \<and>
     (\<forall>j<length pre.
        bufs' ! (count + j) = filled offset (bufs ! (count + j)) (pre ! j) \<and>
        sizes' ! (count + j) = int (filled_size offset (bufs ! (count + j)) (pre ! j)) \<and>
        index (destination (pre ! j)) = Some (dests' ! (count + j)))"
  using assms
proof (induction pre arbitrary: count bufs sizes dests)
  case Nil
  then show ?case by auto
next
  case (Cons q pre)
  from Cons.prems(1) obtain key where q: "\<not> malformed q" "index (destination q) = Some key" "ToView q \<noteq> []"
    by auto
  have c: "count < length bufs" "count < length sizes" "count < length dests"
    using Cons.prems(2,3,4) by auto
  have off: "offset \<le> int (length (bufs ! count))"
    using Cons.prems(6) c(1) by auto
  let ?b1 = "bufs[count := filled offset (bufs ! count) q]"
  let ?s1 = "sizes[count := int (filled_size offset (bufs ! count) q)]"
  let ?d1 = "dests[count := key]"
  have step: "Read_loop index False offset (bufs, sizes, dests) count ((q # pre) @ rest) =
      Read_loop index False offset (?b1, ?s1, ?d1) (Suc count) (pre @ rest)"
    using c packetFn_filled [where index = index and pkt = q, OF q c Cons.prems(5) off]
    by (simp del: packetFn.simps)
  have b1: "\<forall>b\<in>set ?b1. offset \<le> int (length b)"
  proof
    fix b assume "b \<in> set ?b1"
    then have "b = filled offset (bufs ! count) q \<or> b \<in> set bufs"
      using set_update_subset_insert [of bufs count] by auto
    then show "offset \<le> int (length b)"
      using Cons.prems(5,6) off by (auto simp: length_filled)
  qed
  have "\<exists>bufs' sizes' dests'.
     Read_loop index False offset (?b1, ?s1, ?d1) (Suc count) (pre @ rest) =
       Read_loop index False offset (bufs', sizes', dests') (Suc count + length pre) rest \<and>
     length bufs' = length ?b1 \<and> length sizes' = length ?s1 \<and> length dests' = length ?d1 \<and>
     (\<forall>b\<in>set bufs'. offset \<le> int (length b)) \<and>
     (\<forall>i<Suc count. bufs' ! i = ?b1 ! i \<and> sizes' ! i = ?s1 ! i \<and> dests' ! i = ?d1 ! i) \<and>
     (\<forall>j<length pre.
        bufs' ! (Suc count + j) = filled offset (?b1 ! (Suc count + j)) (pre ! j) \<and>
        sizes' ! (Suc count + j) = int (filled_size offset (?b1 ! (Suc count + j)) (pre ! j)) \<and>
        index (destination (pre ! j)) = Some (dests' ! (Suc count + j)))"
    using Cons.prems b1 by (intro Cons.IH) auto
  then obtain bufs' sizes' dests' where
    r: "Read_loop index False offset (?b1, ?s1, ?d1) (Suc count) (pre @ rest) =
       Read_loop index False offset (bufs', sizes', dests') (Suc count + length pre) rest"
    and l: "length bufs' = length bufs" "length sizes' = length sizes" "length dests' = length dests"
    and o: "\<forall>b\<in>set bufs'. offset \<le> int (length b)"
    and old: "\<forall>i<Suc count. bufs' ! i = ?b1 ! i \<and> sizes' ! i = ?s1 ! i \<and> dests' ! i = ?d1 ! i"
    and new: "\<forall>j<length pre.
        bufs' ! (Suc count + j) = filled offset (?b1 ! (Suc count + j)) (pre ! j) \<and>
        sizes' ! (Suc count + j) = int (filled_size offset (?b1 ! (Suc count + j)) (pre ! j)) \<and>
        index (destination (pre ! j)) = Some (dests' ! (Suc count + j))"
    by auto
  have 1: "\<forall>i<count. bufs' ! i = bufs ! i \<and> sizes' ! i = sizes ! i \<and> dests' ! i = dests ! i"
    using old by auto
  have 2: "\<forall>j<length (q # pre).
        bufs' ! (count + j) = filled offset (bufs ! (count + j)) ((q # pre) ! j) \<and>
        sizes' ! (count + j) = int (filled_size offset (bufs ! (count + j)) ((q # pre) ! j)) \<and>
        index (destination ((q # pre) ! j)) = Some (dests' ! (count + j))"
    unfolding length_Cons all_less_Suc_split
    using old new c q(2) by auto
  show ?case
    using step r l o 1 2 by (intro exI [of _ bufs'] exI [of _ sizes'] exI [of _ dests']) simp
qed


text \<open>With a buffer supplied, the first receive and the loop make one loop from count 0.\<close>

lemma Read_as_loop:
  assumes "\<not> chan_closed (incoming ss)" and "sendq (incoming ss) \<noteq> []" and "bufs \<noteq> []"
  shows "Read ss bufs sizes dests offset =
     (case Read_loop (fromPeerAddress ss) False offset (bufs, sizes, dests) 0 (sendq (incoming ss)) of
        Return (q', bt', count, err) \<Rightarrow>
          Return (ss\<lparr>incoming := (incoming ss)\<lparr>sendq := q'\<rparr>\<rparr>, bt', count, err)
      | Panic p \<Rightarrow> Panic p
      | Blocked \<Rightarrow> Blocked)"
proof (cases "sendq (incoming ss)")
  case Nil
  with assms(2) show ?thesis by simp
next
  case (Cons pkt q)
  show ?thesis
  proof (cases "packetFn (fromPeerAddress ss) offset (bufs, sizes, dests) 0 pkt")
    case (Return r)
    then show ?thesis
      using assms(1,3) Cons
      by (cases r; cases "snd r") (simp_all add: Read_def del: packetFn.simps)
  next
    case (Panic x)
    then show ?thesis using assms(1,3) Cons by (simp add: Read_def del: packetFn.simps)
  next
    case Blocked
    then show ?thesis using assms(1,3) Cons by (simp add: Read_def del: packetFn.simps)
  qed
qed


lemma packetFn_filled_in_range:
  "packetFn index offset (bufs, sizes, dests) idx pkt = Return (bt', None) \<Longrightarrow>
   idx < length bufs \<and> idx < length sizes \<and> idx < length dests"
  by (auto simp: Let_def split: sum.splits if_splits prod.splits option.splits)

lemma packetFn_no_index_panic:
  "idx < length bufs \<Longrightarrow> idx < length sizes \<Longrightarrow> idx < length dests \<Longrightarrow>
   packetFn index offset (bufs, sizes, dests) idx pkt \<noteq> Panic IndexOutOfRange"
  by (auto simp: Let_def split: sum.splits if_splits prod.splits option.splits)

lemma Read_loop_count:
  "Read_loop index cl offset (bufs, sizes, dests) count q = Return (q', bt', n, err) \<Longrightarrow>
   count \<le> length bufs \<Longrightarrow> count \<le> n \<and> n \<le> length bufs"
proof (induction q arbitrary: bufs sizes dests count)
  case Nil
  then show ?case by (auto split: if_splits)
next
  case (Cons pkt q)
  show ?case
  proof (cases "count < length bufs \<and> \<not> cl")
    case False
    with Cons.prems show ?thesis by (auto split: if_splits)
  next
    case True
    show ?thesis
    proof (cases "packetFn index offset (bufs, sizes, dests) count pkt")
      case (Return r)
      obtain bufs1 sizes1 dests1 e where r: "r = ((bufs1, sizes1, dests1), e)"
        by (cases r) auto
      show ?thesis
      proof (cases e)
        case None
        from packetFn_lengths [OF Return [unfolded r]] have l: "length bufs1 = length bufs" by simp
        have "Read_loop index cl offset (bufs1, sizes1, dests1) (Suc count) q = Return (q', bt', n, err)"
          using Cons.prems(1) True Return r None by (simp del: packetFn.simps)
        from Cons.IH [OF this] True l show ?thesis by simp
      next
        case (Some a)
        then show ?thesis using Cons.prems True Return r by (simp del: packetFn.simps)
      qed
    next
      case (Panic x)
      then show ?thesis using Cons.prems True by (simp del: packetFn.simps)
    next
      case Blocked
      then show ?thesis using Cons.prems True by (simp del: packetFn.simps)
    qed
  qed
qed

lemma Read_loop_drained:
  "Read_loop index False offset (bufs, sizes, dests) count q = Return (q', bt', n, None) \<Longrightarrow>
   count \<le> length bufs \<Longrightarrow>
   q' = drop (n - count) q \<and> (n = length bufs \<or> q' = [])"
proof (induction q arbitrary: bufs sizes dests count)
  case Nil
  then show ?case by (auto split: if_splits)
next
  case (Cons pkt q)
  show ?case
  proof (cases "count < length bufs")
    case False
    with Cons.prems show ?thesis by (auto split: if_splits)
  next
    case True
    show ?thesis
    proof (cases "packetFn index offset (bufs, sizes, dests) count pkt")
      case (Return r)
      obtain bufs1 sizes1 dests1 e where r: "r = ((bufs1, sizes1, dests1), e)"
        by (cases r) auto
      show ?thesis
      proof (cases e)
        case None
        from packetFn_lengths [OF Return [unfolded r]] have l: "length bufs1 = length bufs" by simp
        have loop: "Read_loop index False offset (bufs1, sizes1, dests1) (Suc count) q =
            Return (q', bt', n, None)"
          using Cons.prems(1) True Return r None by (simp del: packetFn.simps)
        have "Suc count \<le> length bufs1" using True l by simp
        from Read_loop_count [OF loop this] have "n - count = Suc (n - Suc count)" by arith
        with Cons.IH [OF loop \<open>Suc count \<le> length bufs1\<close>] l show ?thesis by auto
      next
        case (Some a)
        then show ?thesis using Cons.prems True Return r by (simp del: packetFn.simps)
      qed
    next
      case (Panic x)
      then show ?thesis using Cons.prems True by (simp del: packetFn.simps)
    next
      case Blocked
      then show ?thesis using Cons.prems True by (simp del: packetFn.simps)
    qed
  qed
qed

lemma Read_loop_no_index_panic:
  "length bufs \<le> length sizes \<Longrightarrow> length bufs \<le> length dests \<Longrightarrow>
   Read_loop index cl offset (bufs, sizes, dests) count q \<noteq> Panic IndexOutOfRange"
proof (induction q arbitrary: bufs sizes dests count)
  case Nil
  then show ?case by simp
next
  case (Cons pkt q)
  show ?case
  proof (cases "count < length bufs \<and> \<not> cl")
    case False
    then show ?thesis by auto
  next
    case True
    show ?thesis
    proof (cases "packetFn index offset (bufs, sizes, dests) count pkt")
      case (Return r)
      obtain bufs1 sizes1 dests1 e where r: "r = ((bufs1, sizes1, dests1), e)"
        by (cases r) auto
      from packetFn_lengths [OF Return [unfolded r]] Cons.prems
      have "length bufs1 \<le> length sizes1" "length bufs1 \<le> length dests1" by simp_all
      from Cons.IH [OF this] show ?thesis
        using True Return r by (cases e) (simp_all del: packetFn.simps)
    next
      case (Panic x)
      moreover have "packetFn index offset (bufs, sizes, dests) count pkt \<noteq> Panic IndexOutOfRange"
        using True Cons.prems by (intro packetFn_no_index_panic) auto
      ultimately show ?thesis using True by (simp del: packetFn.simps)
    next
      case Blocked
      then show ?thesis using packetFn_not_Blocked by blast
    qed
  qed
qed


lemma Read_Return_cases:
  assumes "Read ss bufs sizes dests offset = Return (ss', bt, n, err)"
  obtains
    (closed) "chan_closed (incoming ss)" "n = 0" "err = Some ErrClosed" "ss' = ss"
  | (first_fails) pkt q e where "\<not> chan_closed (incoming ss)" "sendq (incoming ss) = pkt # q"
      "n = 0" "err = Some e" "ss' = ss\<lparr>incoming := (incoming ss)\<lparr>sendq := q\<rparr>\<rparr>"
  | (loop) pkt q bufs1 sizes1 dests1 q' where "\<not> chan_closed (incoming ss)"
      "sendq (incoming ss) = pkt # q"
      "packetFn (fromPeerAddress ss) offset (bufs, sizes, dests) 0 pkt =
         Return ((bufs1, sizes1, dests1), None)"
      "Read_loop (fromPeerAddress ss) False offset (bufs1, sizes1, dests1) 1 q =
         Return (q', bt, n, err)"
      "ss' = ss\<lparr>incoming := (incoming ss)\<lparr>sendq := q'\<rparr>\<rparr>"
proof (cases "chan_closed (incoming ss)")
  case True
  with assms have "n = 0" "err = Some ErrClosed" "ss' = ss" by (simp_all add: Read_def)
  with True show ?thesis by (rule closed)
next
  case False
  show ?thesis
  proof (cases "sendq (incoming ss)")
    case Nil
    with assms False show ?thesis by (simp add: Read_def)
  next
    case (Cons pkt q)
    show ?thesis
    proof (cases "packetFn (fromPeerAddress ss) offset (bufs, sizes, dests) 0 pkt")
      case (Return r)
      obtain bufs1 sizes1 dests1 e where r: "r = ((bufs1, sizes1, dests1), e)"
        by (cases r) auto
      show ?thesis
      proof (cases e)
        case None
        with assms False Cons Return r obtain q' where
          "Read_loop (fromPeerAddress ss) False offset (bufs1, sizes1, dests1) 1 q =
             Return (q', bt, n, err)"
          "ss' = ss\<lparr>incoming := (incoming ss)\<lparr>sendq := q'\<rparr>\<rparr>"
          by (auto simp: Read_def simp del: packetFn.simps split: exec.splits)
        with False Cons Return [unfolded r None] show ?thesis by (rule loop)
      next
        case (Some a)
        with assms False Cons Return r have
          "n = 0" "err = Some a" "ss' = ss\<lparr>incoming := (incoming ss)\<lparr>sendq := q\<rparr>\<rparr>"
          by (simp_all add: Read_def del: packetFn.simps)
        with False Cons show ?thesis by (rule first_fails)
      qed
    next
      case (Panic x)
      with assms False Cons show ?thesis by (simp add: Read_def del: packetFn.simps)
    next
      case Blocked
      with assms False Cons show ?thesis by (simp add: Read_def del: packetFn.simps)
    qed
  qed
qed

lemma Read_Blocked_iff:
  "Read ss bufs sizes dests offset = Blocked \<longleftrightarrow>
   \<not> chan_closed (incoming ss) \<and> sendq (incoming ss) = []"
proof (cases "sendq (incoming ss)")
  case Nil
  then show ?thesis by (simp add: Read_def)
next
  case (Cons pkt q)
  then show ?thesis
    using packetFn_not_Blocked [of "fromPeerAddress ss" offset "(bufs, sizes, dests)" 0 pkt]
      Read_loop_not_Blocked [of "fromPeerAddress ss" False offset _ 1 q]
    by (auto simp: Read_def simp del: packetFn.simps split: exec.splits option.splits)
qed

subsection \<open>The examples\<close>


lemma ss_queued_simps:
  "incoming (ss_queued q) = \<lparr>sendq = q, chan_closed = False\<rparr>"
  "fromPeerAddress (ss_queued q) (Addr4 0x0A000002) = Some 11"
  "fromPeerAddress (ss_queued q) (Addr4 0x0A000009) = None"
  by (simp_all add: ss_queued_def peers_example_def AddPeer_def ss_example_def)

lemma example_packets:
  "\<not> malformed pkt_to_b" "destination pkt_to_b = Addr4 0x0A000002"
  "\<not> malformed pkt_to_stranger" "destination pkt_to_stranger = Addr4 0x0A000009"
  "malformed pkt_arp" "format_error pkt_arp = Errorf ''unknown network protocol''"
  by (simp_all add: malformed_def destination_def format_error_def pkt_to_b_def
      pkt_to_stranger_def pkt_arp_def IPv4ProtocolNumber_def IPv6ProtocolNumber_def)

lemma Read_example_two:
  "Read (ss_queued [pkt_to_b, pkt_to_b]) [buf_example, buf_example, buf_example]
     [0, 0, 0] [0, 0, 0] 4 =
   Return (ss_queued [],
           ([[0, 0, 0, 0] @ ToView pkt_to_b, [0, 0, 0, 0] @ ToView pkt_to_b, buf_example],
            [20, 20, 0], [11, 11, 0]), 2, None)"
  by (simp add: Read_def ss_queued_def peers_example_def AddPeer_def ss_example_def
      peerAddr_def AddrFrom4_def View_Read_def Let_def pkt_to_b_def buf_example_def
      IPv4ProtocolNumber_def IPv6ProtocolNumber_def)

subsection \<open>The claims on \<open>Read\<close>\<close>

text \<open>
  C2. Take a call of \<open>Read\<close> on the open channel with well-formed arguments (\<open>sizes\<close>
  and \<open>destinations\<close> as long as \<open>bufs\<close>, \<open>offset\<close> within every buffer) in which the
  packet \<open>p\<close> is dequeued after the packets \<open>pre\<close>, all of which were filled into
  buffers. If \<open>p\<close> is malformed or its destination has no registered peer, \<open>Read\<close>
  returns the number of packets filled before \<open>p\<close> with the error of \<open>p\<close>; \<open>p\<close> is no
  longer on the channel, the packets behind it still are, and the buffers, sizes and
  destinations of the packets before \<open>p\<close> are in the caller's slices.
\<close>

theorem Read_first_failure:
  assumes "\<not> chan_closed (incoming ss)"
    and "sendq (incoming ss) = pre @ p # rest"
    and "\<forall>q\<in>set pre. \<not> malformed q \<and> fromPeerAddress ss (destination q) \<noteq> None \<and> ToView q \<noteq> []"
    and "malformed p \<or> fromPeerAddress ss (destination p) = None"
    and "length pre < length bufs"
    and "length bufs \<le> length sizes" and "length bufs \<le> length dests"
    and "0 \<le> offset" and "\<forall>b\<in>set bufs. offset \<le> int (length b)"
  shows "\<exists>bufs' sizes' dests'.
     Read ss bufs sizes dests offset =
       Return (ss\<lparr>incoming := (incoming ss)\<lparr>sendq := rest\<rparr>\<rparr>, (bufs', sizes', dests'), length pre,
               Some (if malformed p then format_error p
                     else Errorf ''unknown destination address'')) \<and>
     (\<forall>j<length pre.
        bufs' ! j = filled offset (bufs ! j) (pre ! j) \<and>
        sizes' ! j = int (filled_size offset (bufs ! j) (pre ! j)) \<and>
        fromPeerAddress ss (destination (pre ! j)) = Some (dests' ! j))"
proof -
  let ?index = "fromPeerAddress ss"
  have ne: "sendq (incoming ss) \<noteq> []" "bufs \<noteq> []"
    using assms(2,5) by auto
  have "0 + length pre \<le> length bufs" using assms(5) by simp
  from Read_loop_filled_prefix [OF assms(3) this assms(6,7,8,9), of "p # rest"]
  obtain bufs' sizes' dests' where
    r: "Read_loop ?index False offset (bufs, sizes, dests) 0 (pre @ p # rest) =
       Read_loop ?index False offset (bufs', sizes', dests') (length pre) (p # rest)"
    and l: "length bufs' = length bufs" "length sizes' = length sizes" "length dests' = length dests"
    and new: "\<forall>j<length pre.
        bufs' ! j = filled offset (bufs ! j) (pre ! j) \<and>
        sizes' ! j = int (filled_size offset (bufs ! j) (pre ! j)) \<and>
        ?index (destination (pre ! j)) = Some (dests' ! j)"
    by auto
  have idx: "length pre < length bufs'" "length pre < length dests'"
    using assms(5,7) l by auto
  show ?thesis
  proof (cases "malformed p")
    case True
    have "Read_loop ?index False offset (bufs', sizes', dests') (length pre) (p # rest) =
        Return (rest, (bufs', sizes', dests'), length pre, Some (format_error p))"
      using idx packetFn_malformed [OF True, of ?index offset bufs' sizes' dests' "length pre"]
      by (simp del: packetFn.simps)
    then have "Read ss bufs sizes dests offset =
       Return (ss\<lparr>incoming := (incoming ss)\<lparr>sendq := rest\<rparr>\<rparr>, (bufs', sizes', dests'), length pre,
               Some (format_error p))"
      using r assms(2) by (simp add: Read_as_loop [OF assms(1) ne])
    with True new show ?thesis by auto
  next
    case False
    with assms(4) have u: "?index (destination p) = None" by simp
    have "Read_loop ?index False offset (bufs', sizes', dests') (length pre) (p # rest) =
        Return (rest, (bufs', sizes', dests'[length pre := 0]), length pre,
                Some (Errorf ''unknown destination address''))"
      using idx packetFn_unresolved [where index = ?index and pkt = p, OF False u idx(2), of offset bufs' sizes']
      by (simp del: packetFn.simps)
    then have "Read ss bufs sizes dests offset =
       Return (ss\<lparr>incoming := (incoming ss)\<lparr>sendq := rest\<rparr>\<rparr>,
               (bufs', sizes', dests'[length pre := 0]), length pre,
               Some (Errorf ''unknown destination address''))"
      using r assms(2) by (simp add: Read_as_loop [OF assms(1) ne])
    moreover have "\<forall>j<length pre.
        bufs' ! j = filled offset (bufs ! j) (pre ! j) \<and>
        sizes' ! j = int (filled_size offset (bufs ! j) (pre ! j)) \<and>
        ?index (destination (pre ! j)) = Some (dests'[length pre := 0] ! j)"
      using new by auto
    ultimately show ?thesis using False by auto
  qed
qed

theorem Read_first_failure_witness:
  "\<exists>bufs' sizes' dests'.
     Read (ss_queued [pkt_to_b, pkt_to_stranger, pkt_to_b])
       [buf_example, buf_example] [0, 0] [0, 0] 4 =
       Return (ss_queued [pkt_to_b], (bufs', sizes', dests'), 1,
               Some (Errorf ''unknown destination address'')) \<and>
     bufs' ! 0 = [0, 0, 0, 0] @ ToView pkt_to_b \<and> sizes' ! 0 = 20 \<and> dests' ! 0 = 11"
proof -
  let ?ss = "ss_queued [pkt_to_b, pkt_to_stranger, pkt_to_b]"
  have h1: "\<not> chan_closed (incoming ?ss)" by (simp add: ss_queued_simps)
  have h2: "sendq (incoming ?ss) = [pkt_to_b] @ pkt_to_stranger # [pkt_to_b]"
    by (simp add: ss_queued_simps)
  have h3: "\<forall>q\<in>set [pkt_to_b]. \<not> malformed q \<and> fromPeerAddress ?ss (destination q) \<noteq> None \<and> ToView q \<noteq> []"
    by (simp add: ss_queued_simps example_packets) (simp add: pkt_to_b_def)
  have h4: "malformed pkt_to_stranger \<or> fromPeerAddress ?ss (destination pkt_to_stranger) = None"
    by (simp add: ss_queued_simps example_packets)
  have h5: "length [pkt_to_b] < length [buf_example, buf_example]" by simp
  have h6: "length [buf_example, buf_example] \<le> length [0, 0 :: int]" by simp
  have h7: "length [buf_example, buf_example] \<le> length [0, 0 :: NoisePublicKey]" by simp
  have h8: "(0 :: int) \<le> 4" by simp
  have h9: "\<forall>b\<in>set [buf_example, buf_example]. 4 \<le> int (length b)"
    by (simp add: buf_example_def)
  from Read_first_failure [OF h1 h2 h3 h4 h5 h6 h7 h8 h9]
  obtain bufs' sizes' dests' where
    r: "Read ?ss [buf_example, buf_example] [0, 0] [0, 0] 4 =
       Return (?ss\<lparr>incoming := (incoming ?ss)\<lparr>sendq := [pkt_to_b]\<rparr>\<rparr>, (bufs', sizes', dests'),
               length [pkt_to_b],
               Some (if malformed pkt_to_stranger then format_error pkt_to_stranger
                     else Errorf ''unknown destination address''))"
    and k: "\<forall>j<length [pkt_to_b].
        bufs' ! j = filled 4 ([buf_example, buf_example] ! j) ([pkt_to_b] ! j) \<and>
        sizes' ! j = int (filled_size 4 ([buf_example, buf_example] ! j) ([pkt_to_b] ! j)) \<and>
        fromPeerAddress ?ss (destination ([pkt_to_b] ! j)) = Some (dests' ! j)"
    by blast
  have s: "?ss\<lparr>incoming := (incoming ?ss)\<lparr>sendq := [pkt_to_b]\<rparr>\<rparr> = ss_queued [pkt_to_b]"
    by (simp add: ss_queued_def)
  from k have "bufs' ! 0 = filled 4 buf_example pkt_to_b" and
      "sizes' ! 0 = int (filled_size 4 buf_example pkt_to_b)" and "dests' ! 0 = 11"
    by (simp_all add: ss_queued_simps example_packets)
  moreover have "filled 4 buf_example pkt_to_b = [0, 0, 0, 0] @ ToView pkt_to_b"
    and "filled_size 4 buf_example pkt_to_b = 20"
    by (simp_all add: filled_def filled_size_def buf_example_def pkt_to_b_def)
  ultimately have "bufs' ! 0 = [0, 0, 0, 0] @ ToView pkt_to_b \<and> sizes' ! 0 = 20 \<and> dests' ! 0 = 11"
    by simp
  with r s show ?thesis by (simp add: example_packets)
qed

text \<open>
  C9. The count \<open>Read\<close> returns never exceeds the number of buffers. \<open>Read\<close> is
  suspended only in its first receive, on the open channel with no sender: once it has
  a first packet it never waits. When it returns without an error it has taken exactly
  \<open>n \<ge> 1\<close> packets from the channel and has stopped because the batch is full or
  because no further packet was waiting.
\<close>

theorem Read_count_bounded_and_drains:
  "(\<forall>ss' bt n err. Read ss bufs sizes dests offset = Return (ss', bt, n, err) \<longrightarrow>
      n \<le> length bufs) \<and>
   (Read ss bufs sizes dests offset = Blocked \<longleftrightarrow>
      \<not> chan_closed (incoming ss) \<and> sendq (incoming ss) = []) \<and>
   (\<forall>ss' bt n. Read ss bufs sizes dests offset = Return (ss', bt, n, None) \<longrightarrow>
      0 < n \<and> sendq (incoming ss') = drop n (sendq (incoming ss)) \<and>
      (n = length bufs \<or> sendq (incoming ss') = []))"
proof -
  have bounded: "n \<le> length bufs"
    if "Read ss bufs sizes dests offset = Return (ss', bt, n, err)" for ss' bt n err
    using that
  proof (cases rule: Read_Return_cases)
    case (loop pkt q bufs1 sizes1 dests1 q')
    from packetFn_filled_in_range [OF loop(3)] packetFn_lengths [OF loop(3)]
    have "1 \<le> length bufs1" "length bufs1 = length bufs" by (simp_all add: Suc_le_eq)
    with Read_loop_count [OF loop(4)] show ?thesis by simp
  qed simp_all
  have drains: "0 < n \<and> sendq (incoming ss') = drop n (sendq (incoming ss)) \<and>
      (n = length bufs \<or> sendq (incoming ss') = [])"
    if "Read ss bufs sizes dests offset = Return (ss', bt, n, None)" for ss' bt n
    using that
  proof (cases rule: Read_Return_cases)
    case (loop pkt q bufs1 sizes1 dests1 q')
    from packetFn_filled_in_range [OF loop(3)] packetFn_lengths [OF loop(3)]
    have l: "1 \<le> length bufs1" "length bufs1 = length bufs" by (simp_all add: Suc_le_eq)
    from Read_loop_count [OF loop(4) l(1)] have n: "1 \<le> n" by simp
    then have "drop n (pkt # q) = drop (n - 1) q" by (cases n) simp_all
    with Read_loop_drained [OF loop(4) l(1)] loop(2,5) l(2) n show ?thesis by auto
  qed simp_all
  from bounded drains Read_Blocked_iff [of ss bufs sizes dests offset]
  show ?thesis by blast
qed

theorem Read_count_bounded_and_drains_witness:
  "Read (ss_queued [pkt_to_b, pkt_to_b]) [buf_example, buf_example, buf_example]
     [0, 0, 0] [0, 0, 0] 4 =
   Return (ss_queued [],
           ([[0, 0, 0, 0] @ ToView pkt_to_b, [0, 0, 0, 0] @ ToView pkt_to_b, buf_example],
            [20, 20, 0], [11, 11, 0]), 2, None) \<and>
   (2 :: nat) \<le> length [buf_example, buf_example, buf_example] \<and>
   sendq (incoming (ss_queued [])) = drop 2 (sendq (incoming (ss_queued [pkt_to_b, pkt_to_b]))) \<and>
   (2 = length [buf_example, buf_example, buf_example] \<or> sendq (incoming (ss_queued [])) = []) \<and>
   Read (ss_queued []) [buf_example] [0] [0] 4 = Blocked"
proof -
  note T = Read_count_bounded_and_drains
    [of "ss_queued [pkt_to_b, pkt_to_b]" "[buf_example, buf_example, buf_example]"
        "[0, 0, 0]" "[0, 0, 0]" 4]
  from T Read_example_two
  have "(2 :: nat) \<le> length [buf_example, buf_example, buf_example]" by blast
  moreover from T Read_example_two
  have "sendq (incoming (ss_queued [])) = drop 2 (sendq (incoming (ss_queued [pkt_to_b, pkt_to_b]))) \<and>
     (2 = length [buf_example, buf_example, buf_example] \<or> sendq (incoming (ss_queued [])) = [])"
    by blast
  moreover have "\<not> chan_closed (incoming (ss_queued [])) \<and> sendq (incoming (ss_queued [])) = []"
    by (simp add: ss_queued_simps)
  with Read_count_bounded_and_drains [of "ss_queued []" "[buf_example]" "[0]" "[0]" 4]
  have "Read (ss_queued []) [buf_example] [0] [0] 4 = Blocked" by blast
  ultimately show ?thesis using Read_example_two by blast
qed

lemma Read_receives_first:
  assumes "\<not> chan_closed (incoming ss)" and "sendq (incoming ss) = pkt # q"
  shows "Read ss bufs sizes dests offset =
     Read_body (ss\<lparr>incoming := (incoming ss)\<lparr>sendq := q\<rparr>\<rparr>) pkt bufs sizes dests offset"
  using assms
  by (auto simp: Read_def Read_body_def simp del: packetFn.simps
      split: exec.splits option.splits)

text \<open>
  C10, as the code has it. With a non-empty \<open>bufs\<close> and \<open>sizes\<close> and \<open>destinations\<close>
  at least as long, no index into the three slices is out of range during \<open>Read\<close>.
  \<open>Read\<close> never looks at \<open>len(bufs)\<close> before its first receive: with an empty \<open>bufs\<close>
  and no packet it waits, and whatever the slices, once a packet is there it takes it off
  the channel and runs the rest of its body on the adapter without that packet. With an
  empty \<open>bufs\<close> that rest indexes out of range at 0 when the packet is well-formed and
  either \<open>destinations\<close> is empty too or the destination of the packet is registered.
  For a malformed packet \<open>Read\<close> returns the format error with the count 0 and leaves
  the slices as they were; for a well-formed packet to an address that is not registered
  and a non-empty \<open>destinations\<close> it returns the unknown-destination error with the count
  0, having written the zero key to \<open>destinations[0]\<close>. In both the packet is off the
  channel.
\<close>

theorem Read_index_accesses:
  "(bufs \<noteq> [] \<and> length bufs \<le> length sizes \<and> length bufs \<le> length dests \<longrightarrow>
      Read ss bufs sizes dests offset \<noteq> Panic IndexOutOfRange) \<and>
   (bufs = [] \<and> \<not> chan_closed (incoming ss) \<and> sendq (incoming ss) = [] \<longrightarrow>
      Read ss bufs sizes dests offset = Blocked) \<and>
   (\<not> chan_closed (incoming ss) \<and> sendq (incoming ss) = pkt # q \<longrightarrow>
      (\<forall>bufs' sizes' dests' offset'.
         Read ss bufs' sizes' dests' offset' =
         Read_body (ss\<lparr>incoming := (incoming ss)\<lparr>sendq := q\<rparr>\<rparr>) pkt bufs' sizes' dests' offset')) \<and>
   (bufs = [] \<and> \<not> chan_closed (incoming ss) \<and> sendq (incoming ss) = pkt # q \<and>
    \<not> malformed pkt \<and> (dests = [] \<or> fromPeerAddress ss (destination pkt) \<noteq> None) \<longrightarrow>
      Read ss bufs sizes dests offset = Panic IndexOutOfRange \<and>
      Read_body (ss\<lparr>incoming := (incoming ss)\<lparr>sendq := q\<rparr>\<rparr>) pkt bufs sizes dests offset =
        Panic IndexOutOfRange) \<and>
   (\<not> chan_closed (incoming ss) \<and> sendq (incoming ss) = pkt # q \<and> malformed pkt \<longrightarrow>
      Read ss bufs sizes dests offset =
        Return (ss\<lparr>incoming := (incoming ss)\<lparr>sendq := q\<rparr>\<rparr>, (bufs, sizes, dests), 0,
                Some (format_error pkt))) \<and>
   (\<not> chan_closed (incoming ss) \<and> sendq (incoming ss) = pkt # q \<and> \<not> malformed pkt \<and>
    dests \<noteq> [] \<and> fromPeerAddress ss (destination pkt) = None \<longrightarrow>
      Read ss bufs sizes dests offset =
        Return (ss\<lparr>incoming := (incoming ss)\<lparr>sendq := q\<rparr>\<rparr>, (bufs, sizes, dests[0 := 0]), 0,
                Some (Errorf ''unknown destination address'')))"
proof -
  have in_range: "Read ss bufs sizes dests offset \<noteq> Panic IndexOutOfRange"
    if a: "bufs \<noteq> [] \<and> length bufs \<le> length sizes \<and> length bufs \<le> length dests"
  proof (cases "chan_closed (incoming ss) \<or> sendq (incoming ss) = []")
    case True
    then show ?thesis by (auto simp: Read_def split: list.splits)
  next
    case False
    then have "Read ss bufs sizes dests offset =
     (case Read_loop (fromPeerAddress ss) False offset (bufs, sizes, dests) 0 (sendq (incoming ss)) of
        Return (q', bt', count, err) \<Rightarrow>
          Return (ss\<lparr>incoming := (incoming ss)\<lparr>sendq := q'\<rparr>\<rparr>, bt', count, err)
      | Panic p \<Rightarrow> Panic p
      | Blocked \<Rightarrow> Blocked)"
      using a by (intro Read_as_loop) auto
    moreover have "Read_loop (fromPeerAddress ss) False offset (bufs, sizes, dests) 0
        (sendq (incoming ss)) \<noteq> Panic IndexOutOfRange"
      using a by (intro Read_loop_no_index_panic) auto
    ultimately show ?thesis by (auto split: exec.splits)
  qed
  have waits: "Read ss bufs sizes dests offset = Blocked"
    if "bufs = [] \<and> \<not> chan_closed (incoming ss) \<and> sendq (incoming ss) = []"
    using that by (simp add: Read_Blocked_iff)
  have takes: "Read ss bufs' sizes' dests' offset' =
      Read_body (ss\<lparr>incoming := (incoming ss)\<lparr>sendq := q\<rparr>\<rparr>) pkt bufs' sizes' dests' offset'"
    if "\<not> chan_closed (incoming ss) \<and> sendq (incoming ss) = pkt # q"
    for bufs' sizes' dests' offset'
    using that by (intro Read_receives_first) auto
  have panics: "Read ss bufs sizes dests offset = Panic IndexOutOfRange"
    if "bufs = [] \<and> \<not> chan_closed (incoming ss) \<and> sendq (incoming ss) = pkt # q \<and>
      \<not> malformed pkt \<and> (dests = [] \<or> fromPeerAddress ss (destination pkt) \<noteq> None)"
    using that by (auto simp: Read_def peerAddr_destination)
  have malformed: "Read ss bufs sizes dests offset =
        Return (ss\<lparr>incoming := (incoming ss)\<lparr>sendq := q\<rparr>\<rparr>, (bufs, sizes, dests), 0,
                Some (format_error pkt))"
    if "\<not> chan_closed (incoming ss) \<and> sendq (incoming ss) = pkt # q \<and> malformed pkt"
    using that by (simp add: Read_def packetFn_malformed del: packetFn.simps)
  have unresolved: "Read ss bufs sizes dests offset =
        Return (ss\<lparr>incoming := (incoming ss)\<lparr>sendq := q\<rparr>\<rparr>, (bufs, sizes, dests[0 := 0]), 0,
                Some (Errorf ''unknown destination address''))"
    if "\<not> chan_closed (incoming ss) \<and> sendq (incoming ss) = pkt # q \<and> \<not> malformed pkt \<and>
      dests \<noteq> [] \<and> fromPeerAddress ss (destination pkt) = None"
    using that
      packetFn_unresolved [where index = "fromPeerAddress ss" and pkt = pkt and idx = 0
        and dests = dests, of offset bufs sizes]
    by (simp add: Read_def del: packetFn.simps)
  from in_range waits takes panics malformed unresolved show ?thesis
    by (metis (no_types, lifting))
qed

theorem Read_index_accesses_witness:
  "Read (ss_queued [pkt_to_b]) [buf_example] [0] [0] 4 \<noteq> Panic IndexOutOfRange \<and>
   Read (ss_queued []) [] [] [] 4 = Blocked \<and>
   (\<forall>bufs' sizes' dests' offset'.
      Read (ss_queued [pkt_to_b]) bufs' sizes' dests' offset' =
      Read_body (ss_queued []) pkt_to_b bufs' sizes' dests' offset') \<and>
   Read (ss_queued [pkt_to_b]) [] [] [] 4 = Panic IndexOutOfRange \<and>
   Read_body (ss_queued []) pkt_to_b [] [] [] 4 = Panic IndexOutOfRange \<and>
   Read (ss_queued [pkt_arp, pkt_to_b]) [] [] [] 4 =
     Return (ss_queued [pkt_to_b], ([], [], []), 0, Some (Errorf ''unknown network protocol'')) \<and>
   Read (ss_queued [pkt_to_stranger, pkt_to_b]) [] [] [5] 4 =
     Return (ss_queued [pkt_to_b], ([], [], [0]), 0,
             Some (Errorf ''unknown destination address''))"
proof -
  have st: "\<And>p q. (ss_queued (p # q))\<lparr>incoming := (incoming (ss_queued (p # q)))\<lparr>sendq := q\<rparr>\<rparr> =
      ss_queued q"
    by (simp add: ss_queued_def)
  have "[buf_example] \<noteq> [] \<and> length [buf_example] \<le> length [0 :: int] \<and>
      length [buf_example] \<le> length [0 :: NoisePublicKey]"
    by simp
  with Read_index_accesses [of "[buf_example]" "[0]" "[0]" "ss_queued [pkt_to_b]" 4]
  have 1: "Read (ss_queued [pkt_to_b]) [buf_example] [0] [0] 4 \<noteq> Panic IndexOutOfRange"
    by blast
  have "([] :: byte list list) = [] \<and> \<not> chan_closed (incoming (ss_queued [])) \<and>
      sendq (incoming (ss_queued [])) = []"
    by (simp add: ss_queued_simps)
  with Read_index_accesses [of "[]" "[]" "[]" "ss_queued []" 4]
  have 2: "Read (ss_queued []) [] [] [] 4 = Blocked" by blast
  have h: "([] :: byte list list) = [] \<and> \<not> chan_closed (incoming (ss_queued [pkt_to_b])) \<and>
      sendq (incoming (ss_queued [pkt_to_b])) = pkt_to_b # [] \<and> \<not> malformed pkt_to_b \<and>
      (([] :: NoisePublicKey list) = [] \<or>
       fromPeerAddress (ss_queued [pkt_to_b]) (destination pkt_to_b) \<noteq> None)"
    by (simp add: ss_queued_simps example_packets)
  note T = Read_index_accesses [of "[]" "[]" "[]" "ss_queued [pkt_to_b]" 4 pkt_to_b "[]"]
  from T h have "\<forall>bufs' sizes' dests' offset'.
      Read (ss_queued [pkt_to_b]) bufs' sizes' dests' offset' =
      Read_body ((ss_queued [pkt_to_b])\<lparr>incoming := (incoming (ss_queued [pkt_to_b]))\<lparr>sendq := []\<rparr>\<rparr>)
        pkt_to_b bufs' sizes' dests' offset'"
    by blast
  from this [unfolded st] have 3: "\<forall>bufs' sizes' dests' offset'.
      Read (ss_queued [pkt_to_b]) bufs' sizes' dests' offset' =
      Read_body (ss_queued []) pkt_to_b bufs' sizes' dests' offset'" .
  from T h have "Read (ss_queued [pkt_to_b]) [] [] [] 4 = Panic IndexOutOfRange \<and>
      Read_body ((ss_queued [pkt_to_b])\<lparr>incoming := (incoming (ss_queued [pkt_to_b]))\<lparr>sendq := []\<rparr>\<rparr>)
        pkt_to_b [] [] [] 4 = Panic IndexOutOfRange"
    by blast
  from this [unfolded st] have 4: "Read (ss_queued [pkt_to_b]) [] [] [] 4 = Panic IndexOutOfRange \<and>
      Read_body (ss_queued []) pkt_to_b [] [] [] 4 = Panic IndexOutOfRange" .
  have "\<not> chan_closed (incoming (ss_queued [pkt_arp, pkt_to_b])) \<and>
      sendq (incoming (ss_queued [pkt_arp, pkt_to_b])) = pkt_arp # [pkt_to_b] \<and> malformed pkt_arp"
    by (simp add: ss_queued_simps example_packets)
  with Read_index_accesses [of "[]" "[]" "[]" "ss_queued [pkt_arp, pkt_to_b]" 4 pkt_arp "[pkt_to_b]"]
  have "Read (ss_queued [pkt_arp, pkt_to_b]) [] [] [] 4 =
     Return ((ss_queued [pkt_arp, pkt_to_b])
               \<lparr>incoming := (incoming (ss_queued [pkt_arp, pkt_to_b]))\<lparr>sendq := [pkt_to_b]\<rparr>\<rparr>,
             ([], [], []), 0, Some (format_error pkt_arp))"
    by blast
  from this [unfolded st example_packets] have 5: "Read (ss_queued [pkt_arp, pkt_to_b]) [] [] [] 4 =
     Return (ss_queued [pkt_to_b], ([], [], []), 0, Some (Errorf ''unknown network protocol''))" .
  have "\<not> chan_closed (incoming (ss_queued [pkt_to_stranger, pkt_to_b])) \<and>
      sendq (incoming (ss_queued [pkt_to_stranger, pkt_to_b])) = pkt_to_stranger # [pkt_to_b] \<and>
      \<not> malformed pkt_to_stranger \<and> [5 :: NoisePublicKey] \<noteq> [] \<and>
      fromPeerAddress (ss_queued [pkt_to_stranger, pkt_to_b]) (destination pkt_to_stranger) = None"
    by (simp add: ss_queued_simps example_packets)
  with Read_index_accesses
    [of "[]" "[]" "[5]" "ss_queued [pkt_to_stranger, pkt_to_b]" 4 pkt_to_stranger "[pkt_to_b]"]
  have "Read (ss_queued [pkt_to_stranger, pkt_to_b]) [] [] [5] 4 =
     Return ((ss_queued [pkt_to_stranger, pkt_to_b])
               \<lparr>incoming := (incoming (ss_queued [pkt_to_stranger, pkt_to_b]))\<lparr>sendq := [pkt_to_b]\<rparr>\<rparr>,
             ([], [], [5][0 := 0]), 0, Some (Errorf ''unknown destination address''))"
    by blast
  from this [unfolded st] have 6: "Read (ss_queued [pkt_to_stranger, pkt_to_b]) [] [] [5] 4 =
     Return (ss_queued [pkt_to_b], ([], [], [0]), 0,
             Some (Errorf ''unknown destination address''))"
    by simp
  from 1 2 3 4 5 6 show ?thesis by blast
qed

text \<open>
  C10 as stated fails: with an empty \<open>bufs\<close> and a first packet that is neither IPv4
  nor IPv6, \<open>Read\<close> takes the packet and returns its format error with the count 0,
  and no slice is indexed; with an empty \<open>bufs\<close>, one slot in \<open>destinations\<close> and a
  first packet to an address that is not registered, it returns the unknown-destination
  error with the count 0, and the one index it makes is in range.
\<close>

theorem Read_empty_bufs_counterexample:
  "Read (ss_queued [pkt_arp]) [] [] [] 4 =
     Return (ss_queued [], ([], [], []), 0, Some (Errorf ''unknown network protocol'')) \<and>
   Read (ss_queued [pkt_to_stranger]) [] [] [5] 4 =
     Return (ss_queued [], ([], [], [0]), 0, Some (Errorf ''unknown destination address''))"
  by (simp add: Read_def ss_queued_def peers_example_def AddPeer_def ss_example_def
      peerAddr_def AddrFrom4_def pkt_arp_def pkt_to_stranger_def
      IPv4ProtocolNumber_def IPv6ProtocolNumber_def)

end
